theory Spec2Isabelle
  imports Complex_Main
begin

section \<open>pyEMA: the LSCF estimator, its stabilisation chart and the LSFD reconstruction\<close>

text \<open>
  The development follows \<^verbatim>\<open>src/pyEMA/pyEMA.py\<close>. NumPy's float64 values are modelled
  by real numbers: rounding and overflow are not modelled, and of underflow only that
  of a square to zero (\<open>float64_square\<close>), which makes a divisor zero. A division by an
  exact zero gives \<^verbatim>\<open>inf\<close> or \<^verbatim>\<open>nan\<close> in NumPy, under a silenced warning and with no
  exception; such a non-finite value is \<open>None\<close> in the types \<open>float\<close> and
  \<open>cfloat\<close> below. \<open>None\<close> is only used where what the code does next is the same
  for \<^verbatim>\<open>inf\<close>, \<^verbatim>\<open>-inf\<close> and \<^verbatim>\<open>nan\<close>: sums, products, quotients by a finite
  value, stores and comparisons (a comparison with a non-finite side is false).
\<close>

subsection \<open>Errors and results\<close>

text \<open>
  \<open>Exception msg\<close> is the code's own \<^verbatim>\<open>raise Exception(msg)\<close>; the next five are the
  exceptions of Python and NumPy that the modelled lines can raise. \<open>NonFinite\<close> is
  not an exception: \<^verbatim>\<open>get_poles\<close> returns it where NumPy would store a non-finite
  pole and go on, since the poles of the model are finite complex numbers.
\<close>

datatype error =
    Exception string
  | IndexError
  | ValueError
  | AttributeError
  | TypeError
  | LinAlgError
  | NonFinite

definition then_do :: "error + 'a \<Rightarrow> ('a \<Rightarrow> error + 'b) \<Rightarrow> error + 'b" where
  "then_do m f = (case m of Inl e \<Rightarrow> Inl e | Inr x \<Rightarrow> f x)"

fun for_each :: "('a \<Rightarrow> 's \<Rightarrow> error + 's) \<Rightarrow> 'a list \<Rightarrow> 's \<Rightarrow> error + 's" where
  "for_each body [] s = Inr s"
| "for_each body (x # xs) s = then_do (body x s) (for_each body xs)"

fun collect :: "('a \<Rightarrow> error + 'b) \<Rightarrow> 'a list \<Rightarrow> error + 'b list" where
  "collect f [] = Inr []"
| "collect f (x # xs) = then_do (f x) (\<lambda>y. then_do (collect f xs) (\<lambda>ys. Inr (y # ys)))"

text \<open>Reading an attribute that no method has set yet raises \<^verbatim>\<open>AttributeError\<close>.\<close>

definition attr :: "'a option \<Rightarrow> error + 'a" where
  "attr a = (case a of None \<Rightarrow> Inl AttributeError | Some v \<Rightarrow> Inr v)"

subsection \<open>Floats\<close>

type_synonym float = "real option"

type_synonym cfloat = "complex option"

definition np_div :: "real \<Rightarrow> real \<Rightarrow> float" where
  "np_div a b = (if b = 0 then None else Some (a / b))"

text \<open>
  The square \<^verbatim>\<open>x**2\<close> of a float64. The least positive float64 is \<open>1 / 2 ^ 1074\<close>;
  under rounding to nearest, ties to even, a square of at most half of it is
  \<^verbatim>\<open>0.0\<close>, and NumPy raises nothing. Above that bound the square is kept exact.
\<close>

definition float64_square :: "real \<Rightarrow> real" where
  "float64_square x = (if x\<^sup>2 \<le> 1 / 2 ^ 1075 then 0 else x\<^sup>2)"

definition np_cdiv :: "cfloat \<Rightarrow> complex \<Rightarrow> cfloat" where
  "np_cdiv a b = (case a of None \<Rightarrow> None | Some x \<Rightarrow> if b = 0 then None else Some (x / b))"

definition fadd :: "float \<Rightarrow> float \<Rightarrow> float" where
  "fadd a b = (case (a, b) of (Some x, Some y) \<Rightarrow> Some (x + y) | _ \<Rightarrow> None)"

definition fmul :: "float \<Rightarrow> float \<Rightarrow> float" where
  "fmul a b = (case (a, b) of (Some x, Some y) \<Rightarrow> Some (x * y) | _ \<Rightarrow> None)"

definition fneg :: "float \<Rightarrow> float" where
  "fneg a = map_option uminus a"

definition cadd :: "cfloat \<Rightarrow> cfloat \<Rightarrow> cfloat" where
  "cadd a b = (case (a, b) of (Some x, Some y) \<Rightarrow> Some (x + y) | _ \<Rightarrow> None)"

definition csub :: "cfloat \<Rightarrow> cfloat \<Rightarrow> cfloat" where
  "csub a b = (case (a, b) of (Some x, Some y) \<Rightarrow> Some (x - y) | _ \<Rightarrow> None)"

definition cneg :: "cfloat \<Rightarrow> cfloat" where
  "cneg a = map_option uminus a"

definition cconj :: "cfloat \<Rightarrow> cfloat" where
  "cconj a = map_option cnj a"

definition np_real :: "cfloat \<Rightarrow> float" where
  "np_real a = map_option Re a"

definition np_imag :: "cfloat \<Rightarrow> float" where
  "np_imag a = map_option Im a"

text \<open>\<^verbatim>\<open>x + 1j * y\<close> for two float64 values.\<close>

definition cplx :: "float \<Rightarrow> float \<Rightarrow> cfloat" where
  "cplx a b = (case (a, b) of (Some x, Some y) \<Rightarrow> Some (Complex x y) | _ \<Rightarrow> None)"

text \<open>The product of a float64 and a finite complex128 entry, as in a matrix product.\<close>

definition fcmul :: "float \<Rightarrow> complex \<Rightarrow> cfloat" where
  "fcmul a z = (case a of None \<Rightarrow> None | Some x \<Rightarrow> Some (of_real x * z))"

subsection \<open>Arrays\<close>

text \<open>
  A 1-D array is a list. A 2-D array is its shape and its entries; only the entries
  inside the shape mean anything. An argument that is converted by \<^verbatim>\<open>np.asarray\<close> is
  an array of one or of two dimensions.
\<close>

record 'a ndarray2 =
  shape0 :: nat
  shape1 :: nat
  item :: "nat \<Rightarrow> nat \<Rightarrow> 'a"

datatype 'a ndarray = A1 "'a list" | A2 "'a ndarray2"

definition zeros2 :: "nat \<Rightarrow> nat \<Rightarrow> 'a \<Rightarrow> 'a ndarray2" where
  "zeros2 r c z = \<lparr>shape0 = r, shape1 = c, item = (\<lambda>i j. z)\<rparr>"

text \<open>Python's index rule: a negative index counts from the end.\<close>

definition py_index :: "int \<Rightarrow> nat \<Rightarrow> error + nat" where
  "py_index i n =
     (if 0 \<le> i \<and> i < int n then Inr (nat i)
      else if - int n \<le> i \<and> i < 0 then Inr (nat (i + int n))
      else Inl IndexError)"

definition getitem :: "'a list \<Rightarrow> int \<Rightarrow> error + 'a" where
  "getitem xs i = then_do (py_index i (length xs)) (\<lambda>k. Inr (xs ! k))"

text \<open>\<^verbatim>\<open>m[i, j]\<close>, \<^verbatim>\<open>m[i, j] = v\<close> and the column \<^verbatim>\<open>m[:, j]\<close>.\<close>

definition getitem2 :: "'a ndarray2 \<Rightarrow> int \<Rightarrow> int \<Rightarrow> error + 'a" where
  "getitem2 m i j =
     then_do (py_index i (shape0 m)) (\<lambda>r.
     then_do (py_index j (shape1 m)) (\<lambda>c. Inr (item m r c)))"

definition setitem2 :: "'a ndarray2 \<Rightarrow> int \<Rightarrow> int \<Rightarrow> 'a \<Rightarrow> error + 'a ndarray2" where
  "setitem2 m i j v =
     then_do (py_index i (shape0 m)) (\<lambda>r.
     then_do (py_index j (shape1 m)) (\<lambda>c.
     Inr (m\<lparr>item := (item m)(r := (item m r)(c := v))\<rparr>)))"

definition getcol :: "'a ndarray2 \<Rightarrow> int \<Rightarrow> error + 'a list" where
  "getcol m j =
     then_do (py_index j (shape1 m)) (\<lambda>c. Inr (map (\<lambda>i. item m i c) [0..<shape0 m]))"

text \<open>The slices \<^verbatim>\<open>m[:, :k]\<close> and \<^verbatim>\<open>m[:, l:u]\<close> for non-negative bounds.\<close>

definition cols_upto :: "'a ndarray2 \<Rightarrow> nat \<Rightarrow> 'a ndarray2" where
  "cols_upto m k = m\<lparr>shape1 := min k (shape1 m)\<rparr>"

definition cols_slice :: "'a ndarray2 \<Rightarrow> nat \<Rightarrow> nat \<Rightarrow> 'a ndarray2" where
  "cols_slice m l u =
     \<lparr>shape0 = shape0 m, shape1 = min u (shape1 m) - l, item = (\<lambda>i j. item m i (l + j))\<rparr>"

definition transpose2 :: "'a ndarray2 \<Rightarrow> 'a ndarray2" where
  "transpose2 m = \<lparr>shape0 = shape1 m, shape1 = shape0 m, item = (\<lambda>i j. item m j i)\<rparr>"

text \<open>
  \<^verbatim>\<open>np.argmin\<close>: the first index of the least entry; \<^verbatim>\<open>ValueError\<close> on an empty
  array.
\<close>

fun argmin_from :: "real \<Rightarrow> nat \<Rightarrow> nat \<Rightarrow> real list \<Rightarrow> nat" where
  "argmin_from best bi k [] = bi"
| "argmin_from best bi k (x # xs) =
     (if x < best then argmin_from x k (Suc k) xs else argmin_from best bi (Suc k) xs)"

definition argmin :: "real list \<Rightarrow> error + nat" where
  "argmin xs = (case xs of [] \<Rightarrow> Inl ValueError | x # rest \<Rightarrow> Inr (argmin_from x 0 1 rest))"

text \<open>\<^verbatim>\<open>np.argwhere(cond)\<close> on a 1-D array, and indexing by such an index array.\<close>

definition argwhere :: "('a \<Rightarrow> bool) \<Rightarrow> 'a list \<Rightarrow> nat list" where
  "argwhere P xs = filter (\<lambda>j. P (xs ! j)) [0..<length xs]"

definition take_idx :: "'a list \<Rightarrow> nat list \<Rightarrow> error + 'a list" where
  "take_idx xs idx =
     (if \<forall>k \<in> set idx. k < length xs then Inr (map (\<lambda>k. xs ! k) idx) else Inl IndexError)"

text \<open>\<^verbatim>\<open>np.sum(m, axis=0)\<close> of an integer array of shape \<open>(r, c)\<close>.\<close>

definition sum_axis0 :: "nat \<Rightarrow> nat \<Rightarrow> (nat \<Rightarrow> nat \<Rightarrow> int) \<Rightarrow> int list" where
  "sum_axis0 r c m = map (\<lambda>j. sum_list (map (\<lambda>i. m i j) [0..<r])) [0..<c]"

subsection \<open>The estimator object and its construction\<close>

text \<open>
  \<^verbatim>\<open>self.frf\<close> is the FRF matrix, or the integer \<^verbatim>\<open>0\<close> that \<^verbatim>\<open>__init__\<close> stores
  when it is called with \<^verbatim>\<open>pyfrf=True\<close>. The sampling time is a float64; it is
  infinite when the last frequency is zero.
\<close>

datatype frf_attr = Placeholder | Frf "complex ndarray2"

datatype sampling = Finite real | Infinite

record lscf =
  lower :: "real option"
  upper :: "real option"
  frf :: "frf_attr option"
  freq :: "real list option"
  pol_order_high :: "int option"
  omega :: "real list option"
  sampling_time :: "sampling option"
  all_poles :: "complex list list option"
  pole_freq :: "real list list option"
  pole_xi :: "float list list option"
  pole_ind :: "(int \<times> int) list option"
  A :: "cfloat ndarray2 option"
  LR :: "cfloat list option"
  UR :: "cfloat list option"
  poles :: "complex list option"

definition new_object :: lscf where
  "new_object =
     \<lparr>lower = None, upper = None, frf = None, freq = None, pol_order_high = None,
      omega = None, sampling_time = None, all_poles = None, pole_freq = None,
      pole_xi = None, pole_ind = None, A = None, LR = None, UR = None, poles = None\<rparr>"

text \<open>Lines 116-120: a 1-D \<^verbatim>\<open>frf\<close> becomes \<^verbatim>\<open>np.array([frf])\<close>, one row.\<close>

definition as_row :: "'a list \<Rightarrow> 'a ndarray2" where
  "as_row xs = \<lparr>shape0 = 1, shape1 = length xs, item = (\<lambda>i j. xs ! j)\<rparr>"

definition as_matrix :: "'a ndarray \<Rightarrow> 'a ndarray2" where
  "as_matrix f = (case f of A1 xs \<Rightarrow> as_row xs | A2 m \<Rightarrow> m)"

text \<open>\<^verbatim>\<open>1/(2*self.freq[-1])\<close>.\<close>

definition nyquist_dt :: "real \<Rightarrow> sampling" where
  "nyquist_dt f = (if f = 0 then Infinite else Finite (1 / (2 * f)))"

text \<open>
  \<^verbatim>\<open>lscf.__init__(frf, freq, dt, lower, upper, pol_order_high, pyfrf)\<close>, lines 98-149.
  \<open>lower_arg\<close>, \<open>upper_arg\<close> and \<open>order_arg\<close> are what \<^verbatim>\<open>float(lower)\<close>,
  \<^verbatim>\<open>float(upper)\<close> and \<^verbatim>\<open>int(pol_order_high)\<close> convert the arguments to, \<open>None\<close>
  when the conversion raises. \<open>frf_arg\<close>, \<open>freq_arg\<close> and \<open>dt\<close> are \<open>None\<close> for
  Python's \<^verbatim>\<open>None\<close>. The steps run in the order of the source: the bounds, the
  arrays and the cut at \<^verbatim>\<open>upper\<close>, the order, the sampling time.
\<close>

definition lscf_init ::
  "complex ndarray option \<Rightarrow> real ndarray option \<Rightarrow> real option \<Rightarrow> real option \<Rightarrow>
   real option \<Rightarrow> int option \<Rightarrow> bool \<Rightarrow> error + lscf" where
  "lscf_init frf_arg freq_arg dt lower_arg upper_arg order_arg pyfrf =
     then_do (case lower_arg of
                None \<Rightarrow> Inl (Exception ''lower must be float or integer'')
              | Some l \<Rightarrow> Inr l) (\<lambda>lo.
     if lo < 0 then Inl (Exception ''lower must be positive or equal to zero'') else
     then_do (case upper_arg of
                None \<Rightarrow> Inl (Exception ''upper must be flaot or integer'')
              | Some u \<Rightarrow> Inr u) (\<lambda>up.
     if up < lo then Inl (Exception ''upper must be greater than lower'') else
     then_do
       (let self = new_object\<lparr>lower := Some lo, upper := Some up\<rparr> in
        if pyfrf then Inr (self\<lparr>frf := Some Placeholder\<rparr>)
        else case (frf_arg, freq_arg) of
            (Some f, Some fq) \<Rightarrow>
              (let m = as_matrix f in
               case fq of
                 A2 q \<Rightarrow> Inl (Exception ''ndim of freq is not equal to 1 (2)'')
               | A1 fr \<Rightarrow>
                   then_do (argmin (map (\<lambda>x. \<bar>x - up\<bar>) fr)) (\<lambda>cutoff_ind.
                   Inr (self\<lparr>frf := Some (Frf (cols_upto m cutoff_ind)),
                             freq := Some (take cutoff_ind fr)\<rparr>)))
          | _ \<Rightarrow> Inl (Exception ''input arguments are not defined'')) (\<lambda>self.
     then_do (case order_arg of
                None \<Rightarrow> Inl (Exception ''cannot convert pol_order_high to integer'')
              | Some p \<Rightarrow> Inr p) (\<lambda>p.
     if p \<le> 0 then Inl (Exception ''pol_order_high must be positive'') else
     let self = self\<lparr>pol_order_high := Some p\<rparr> in
     if pyfrf then Inr self
     else
       then_do (attr (freq self)) (\<lambda>fr.
       let self = self\<lparr>omega := Some (map (\<lambda>f. 2 * pi * f) fr)\<rparr> in
       case dt of
         None \<Rightarrow> then_do (getitem fr (- 1)) (\<lambda>f_last.
                   Inr (self\<lparr>sampling_time := Some (nyquist_dt f_last)\<rparr>))
       | Some d \<Rightarrow> Inr (self\<lparr>sampling_time := Some (Finite d)\<rparr>))))))"

subsection \<open>Poles to natural frequency and damping\<close>

text \<open>
  \<^verbatim>\<open>complex_freq_to_freq_and_damp(sr)\<close>, lines 661-665, one entry of the array:
  \<^verbatim>\<open>fr = sign(imag(sr)) * abs(sr); xir = -sr.real / fr; fr /= 2 * pi\<close>.
  A pole on the real axis has \<open>fr = 0\<close>, and its damping is a non-finite quotient.
\<close>

definition freq_and_damp :: "complex \<Rightarrow> real \<times> float" where
  "freq_and_damp s =
     (let fr = sgn (Im s) * cmod s;
          xir = np_div (- Re s) fr
      in (fr / (2 * pi), xir))"

definition complex_freq_to_freq_and_damp :: "complex list \<Rightarrow> real list \<times> float list" where
  "complex_freq_to_freq_and_damp sr =
     (map (\<lambda>s. fst (freq_and_damp s)) sr, map (\<lambda>s. snd (freq_and_damp s)) sr)"

subsection \<open>The polynomial solver\<close>






subsection \<open>Redundant values\<close>

text \<open>
  \<^verbatim>\<open>redundant_values(omega, xi, prec)\<close>, lines 678-692. The two loops set
  \<^verbatim>\<open>test_omega[i, j]\<close> for \<open>1 \<le> i < N\<close> and \<open>j < i\<close>; every other entry keeps the
  zero of \<^verbatim>\<open>np.zeros\<close>. \<^verbatim>\<open>omega[np.argwhere(test < 1)]\<close> has the shape \<open>(K, 1)\<close>; the
  model keeps its \<open>K\<close> entries, in order.
\<close>

definition test_omega :: "real list \<Rightarrow> real \<Rightarrow> nat \<Rightarrow> nat \<Rightarrow> int" where
  "test_omega omega_arr prec i j =
     (if 1 \<le> i \<and> i < length omega_arr \<and> j < i \<and> \<bar>omega_arr ! i - omega_arr ! j\<bar> < prec
      then 1 else 0)"

definition redundant_values ::
  "real list \<Rightarrow> 'a list \<Rightarrow> real \<Rightarrow> error + (real list \<times> 'a list)" where
  "redundant_values omega_arr xi prec =
     (let N = length omega_arr;
          test = sum_axis0 N N (test_omega omega_arr prec);
          keep = argwhere (\<lambda>t. t < 1) test
      in then_do (take_idx omega_arr keep) (\<lambda>omega_mod.
         then_do (take_idx xi keep) (\<lambda>xi_mod.
         Inr (omega_mod, xi_mod))))"

subsection \<open>The stabilisation matrices\<close>

text \<open>
  \<^verbatim>\<open>np.abs((x - col) / col) < err\<close> for one entry \<open>y\<close> of the stored column: the
  quotient is not finite when \<open>y\<close> is zero or when a side is not finite, and the
  comparison is then false.
\<close>

definition rel_dev :: "float \<Rightarrow> float \<Rightarrow> float" where
  "rel_dev x y = (case (x, y) of (Some a, Some b) \<Rightarrow> np_div (a - b) b | _ \<Rightarrow> None)"

definition abs_lt :: "float \<Rightarrow> real \<Rightarrow> bool" where
  "abs_lt d err = (case d of None \<Rightarrow> False | Some v \<Rightarrow> \<bar>v\<bar> < err)"

definition matches :: "float \<Rightarrow> float \<Rightarrow> real \<Rightarrow> bool" where
  "matches x y err = abs_lt (rel_dev x y) err"

text \<open>
  Row \<open>i\<close> of \<^verbatim>\<open>fn_test\<close> after line 738: zero, and one where the mask holds. Its
  length is that of the stored column.
\<close>

definition test_row :: "float \<Rightarrow> float list \<Rightarrow> real \<Rightarrow> int list" where
  "test_row x col err = map (\<lambda>y. if matches x y err then 1 else 0) col"

record stab =
  fn_temp :: "float ndarray2"
  xi_temp :: "float ndarray2"
  test_fn :: "int ndarray2"
  test_xi :: "int ndarray2"

text \<open>
  The body of the loop over \<open>i\<close>, lines 738-747, for the loop index \<open>n\<close> and the
  deduplicated \<open>fn\<close> and \<open>xi\<close>. The indices \<open>n - 1\<close> and \<open>n - 2\<close> follow Python's
  rule, so they are negative in the first iterations.
\<close>

definition stab_row ::
  "real \<Rightarrow> real \<Rightarrow> nat \<Rightarrow> real list \<Rightarrow> float list \<Rightarrow> nat \<Rightarrow> stab \<Rightarrow> error + stab" where
  "stab_row err_fn err_xi n fn xi i s =
     then_do (getcol (fn_temp s) (int n - 2)) (\<lambda>fn_col.
     let fn_test_i = test_row (Some (fn ! i)) fn_col err_fn in
     then_do (getcol (xi_temp s) (int n - 2)) (\<lambda>xi_col.
     let xi_test_i = test_row (xi ! i) xi_col err_xi in
     then_do (setitem2 (fn_temp s) (int i) (int n - 1) (Some (fn ! i))) (\<lambda>ft.
     then_do (setitem2 (xi_temp s) (int i) (int n - 1) (xi ! i)) (\<lambda>xt.
     then_do (setitem2 (test_fn s) (int i) (int n - 1) (sum_list (take (2 * n) fn_test_i))) (\<lambda>tf.
     then_do (setitem2 (test_xi s) (int i) (int n - 1) (sum_list (take (2 * n) xi_test_i))) (\<lambda>tx.
     Inr \<lparr>fn_temp = ft, xi_temp = xt, test_fn = tf, test_xi = tx\<rparr>))))))"

text \<open>
  The first step, lines 726-727: \<^verbatim>\<open>fn_temp[0:len(fn), 0:1] = fn\<close>. The right side has
  the shape \<open>(K, 1)\<close>; the left side has \<open>min K (shape0 m)\<close> rows, and the assignment
  raises \<^verbatim>\<open>ValueError\<close> when the shapes differ.
\<close>

definition set_first_column :: "'a ndarray2 \<Rightarrow> 'a list \<Rightarrow> error + 'a ndarray2" where
  "set_first_column m v =
     (if length v \<le> shape0 m \<and> 1 \<le> shape1 m
      then Inr (m\<lparr>item := (\<lambda>i j. if i < length v \<and> j = 0 then v ! i else item m i j)\<rparr>)
      else Inl ValueError)"

text \<open>One iteration of the loop over \<open>n\<close>, lines 720-747.\<close>

definition stab_iter ::
  "complex list list \<Rightarrow> real \<Rightarrow> real \<Rightarrow> nat \<Rightarrow> stab \<Rightarrow> error + stab" where
  "stab_iter sr err_fn err_xi n s =
     then_do (getitem sr (int n)) (\<lambda>sr_n.
     let (fn0, xi0) = complex_freq_to_freq_and_damp sr_n in
     then_do (redundant_values fn0 xi0 (1 / 1000)) (\<lambda>(fn, xi).
     if n = 1 then
       then_do (set_first_column (fn_temp s) (map Some fn)) (\<lambda>ft.
       then_do (set_first_column (xi_temp s) xi) (\<lambda>xt.
       Inr (s\<lparr>fn_temp := ft, xi_temp := xt\<rparr>)))
     else
       for_each (stab_row err_fn err_xi n fn xi) [0..<length fn] s))"

text \<open>
  \<^verbatim>\<open>stabilisation(sr, nmax, err_fn, err_xi)\<close>, lines 714-749; the progress bar is
  left out.
\<close>

definition stabilisation ::
  "complex list list \<Rightarrow> nat \<Rightarrow> real \<Rightarrow> real \<Rightarrow>
   error + (float ndarray2 \<times> float ndarray2 \<times> int ndarray2 \<times> int ndarray2)" where
  "stabilisation sr nmax err_fn err_xi =
     then_do
       (for_each (stab_iter sr err_fn err_xi) [0..<nmax]
          \<lparr>fn_temp = zeros2 (2 * nmax) nmax (Some 0), xi_temp = zeros2 (2 * nmax) nmax (Some 0),
           test_fn = zeros2 (2 * nmax) nmax 0, test_xi = zeros2 (2 * nmax) nmax 0\<rparr>)
       (\<lambda>s. Inr (fn_temp s, xi_temp s, test_fn s, test_xi s))"

subsection \<open>The LSFD estimate and the reconstruction of the FRF\<close>

text \<open>
  The values of \<^verbatim>\<open>FRF_ind\<close>. \<open>FRF_int\<close> holds the values for which
  \<^verbatim>\<open>isinstance(FRF_ind, int)\<close> is true: Python's \<^verbatim>\<open>bool\<close> is a subclass of
  \<^verbatim>\<open>int\<close>. \<open>FRF_other\<close> is any value that is not \<^verbatim>\<open>None\<close>, does not equal
  \<^verbatim>\<open>'all'\<close> and is not an \<^verbatim>\<open>int\<close> (a float, a tuple, a list). A NumPy array,
  whose comparison with \<^verbatim>\<open>'all'\<close> may be elementwise, is not among them.
\<close>

datatype pyint = PyInt int | PyBool bool

datatype frf_ind = FRF_None | FRF_str string | FRF_int pyint | FRF_other

datatype lsfd_result =
    Modal "cfloat ndarray2"
  | FRF_row "cfloat list" "cfloat ndarray2"
  | FRF_all "cfloat ndarray2" "cfloat ndarray2"

definition FRF_ind_message :: string where
  "FRF_ind_message = ''FRF_ind must be None, '' @ [CHR 0x22] @ ''all'' @ [CHR 0x22] @ '' or int''"

text \<open>
  The partial fractions of one pole at one angular frequency, lines 507-514:
  \<^verbatim>\<open>1/(1j*ome - pole)\<close> and \<^verbatim>\<open>1/(1j*ome - conj(pole))\<close>.
\<close>

definition basis_re :: "real \<Rightarrow> complex \<Rightarrow> float" where
  "basis_re w p =
     np_real (cadd (np_cdiv (Some 1) (Complex 0 w - p)) (np_cdiv (Some 1) (Complex 0 w - cnj p)))"

definition basis_im :: "real \<Rightarrow> complex \<Rightarrow> float" where
  "basis_im w p =
     np_imag (csub (np_cdiv (Some 1) (Complex 0 w - p)) (np_cdiv (Some 1) (Complex 0 w - cnj p)))"

text \<open>Lines 520-523: \<^verbatim>\<open>_ome = 0.01 if ome[i] == 0 else ome[i]\<close>.\<close>

definition guarded_ome :: "real \<Rightarrow> real" where
  "guarded_ome w = (if w = 0 then 1 / 100 else w)"

text \<open>
  The design matrix \<^verbatim>\<open>TA\<close>, lines 503-536. Each of its \<open>2 * M_2 + 4\<close> columns is
  assigned once, so no entry keeps the one of \<^verbatim>\<open>np.ones\<close>. Column \<open>-4\<close> is
  \<^verbatim>\<open>-np.real(1/(_ome)**2)\<close>, where \<^verbatim>\<open>_ome\<close> is a float64 and its square may underflow
  to zero; column \<open>-3\<close> is the imaginary part of a real number, column \<open>-1\<close> that
  of the real ones.
\<close>

definition lsfd_TA :: "real list \<Rightarrow> complex list \<Rightarrow> bool \<Rightarrow> bool \<Rightarrow> bool \<Rightarrow> float ndarray2" where
  "lsfd_TA ome ps complex_mode upper_r lower_r =
     (let M_2 = length ps in
      \<lparr>shape0 = length ome, shape1 = M_2 * 2 + 4,
       item = (\<lambda>i j.
         if j < M_2 then basis_re (ome ! i) (ps ! j)
         else if j < 2 * M_2 then
           (if complex_mode then basis_im (ome ! i) (ps ! (j - M_2)) else Some 0)
         else if j = 2 * M_2 then
           (if lower_r then fneg (np_div 1 (float64_square (guarded_ome (ome ! i)))) else Some 0)
         else if j = 2 * M_2 + 1 then Some 0
         else if j = 2 * M_2 + 2 then (if upper_r then Some 1 else Some 0)
         else Some 0)\<rparr>)"

definition fsum :: "float list \<Rightarrow> float" where
  "fsum xs = foldr fadd xs (Some 0)"

definition csum :: "cfloat list \<Rightarrow> cfloat" where
  "csum xs = foldr cadd xs (Some 0)"

text \<open>The matrix product \<^verbatim>\<open>a @ b\<close> of two real matrices.\<close>

definition fmatmul :: "float ndarray2 \<Rightarrow> float ndarray2 \<Rightarrow> error + float ndarray2" where
  "fmatmul a b =
     (if shape1 a = shape0 b
      then Inr \<lparr>shape0 = shape0 a, shape1 = shape1 b,
                item = (\<lambda>i j. fsum (map (\<lambda>k. fmul (item a i k) (item b k j)) [0..<shape1 a]))\<rparr>
      else Inl ValueError)"

text \<open>
  Lines 540-543: \<^verbatim>\<open>A_LSFD[v, :] = AT @ _FRF_mat[v, :]\<close> for every row \<open>v\<close>. The
  product is complex; the real array keeps its real part (the \<^verbatim>\<open>ComplexWarning\<close> is
  a silenced \<^verbatim>\<open>RuntimeWarning\<close>). The product raises when the inner lengths differ;
  the assignment raises when the product has neither the length of the row nor the
  length one, which is broadcast.
\<close>

definition lsfd_rows ::
  "float ndarray2 \<Rightarrow> complex ndarray2 \<Rightarrow> nat \<Rightarrow> nat \<Rightarrow> error + float ndarray2" where
  "lsfd_rows AT FRF_mat IO width =
     (if 0 < IO \<and> (shape1 AT \<noteq> shape1 FRF_mat \<or> (shape0 AT \<noteq> width \<and> shape0 AT \<noteq> 1))
      then Inl ValueError
      else Inr \<lparr>shape0 = IO, shape1 = width,
                item = (\<lambda>v c. np_real (csum (map (\<lambda>k. fcmul (item AT (if shape0 AT = 1 then 0 else c) k)
                                                               (item FRF_mat v k))
                                                [0..<shape1 AT])))\<rparr>)"

text \<open>
  \<^verbatim>\<open>FRF_reconstruct(FRF_ind)\<close>, lines 633-642, for an integer index. A term whose
  denominator is zero is not finite.
\<close>

definition pole_term :: "cfloat \<Rightarrow> complex \<Rightarrow> real \<Rightarrow> cfloat" where
  "pole_term a p w =
     cadd (np_cdiv a (Complex 0 w - p)) (np_cdiv (cconj a) (Complex 0 w - cnj p))"

definition residual_term :: "cfloat \<Rightarrow> cfloat \<Rightarrow> real \<Rightarrow> cfloat" where
  "residual_term lr ur w = cadd (np_cdiv (cneg lr) (complex_of_real (float64_square w))) ur"

definition reconstruct_step ::
  "lscf \<Rightarrow> cfloat ndarray2 \<Rightarrow> real list \<Rightarrow> int \<Rightarrow> nat \<Rightarrow> cfloat list \<Rightarrow> error + cfloat list" where
  "reconstruct_step self a om k n FRF_true =
     then_do (getitem2 a k (int n)) (\<lambda>a_kn.
     then_do (attr (poles self)) (\<lambda>ps.
     then_do (getitem ps (int n)) (\<lambda>p.
     Inr (map2 cadd FRF_true (map (pole_term a_kn p) om)))))"

text \<open>
  With a Python \<^verbatim>\<open>bool\<close> the same lines fail. NumPy reads a \<^verbatim>\<open>bool\<close> in an index
  as a 0-d boolean mask: it selects no axis and adds an axis of length one
  (\<^verbatim>\<open>True\<close>) or zero (\<^verbatim>\<open>False\<close>), so in \<^verbatim>\<open>self.A[FRF_ind, n]\<close> the integer \<open>n\<close>
  indexes the rows and the value is 2-D; \<^verbatim>\<open>self.LR[FRF_ind]\<close> is 2-D as well. The
  integer \<open>n\<close> is checked against the number of rows for \<^verbatim>\<open>True\<close> and for \<^verbatim>\<open>False\<close>
  alike, so with no row the first read raises \<^verbatim>\<open>IndexError\<close>. The quotient by the
  1-D \<^verbatim>\<open>omega\<close> terms raises \<^verbatim>\<open>ValueError\<close> when the shapes do not broadcast, and
  otherwise the in-place \<^verbatim>\<open>FRF_true += ...\<close> raises it, since a 2-D value does not
  broadcast into the 1-D \<^verbatim>\<open>FRF_true\<close>.
\<close>

definition reconstruct_bool :: "lscf \<Rightarrow> cfloat ndarray2 \<Rightarrow> real list \<Rightarrow> bool \<Rightarrow> error + cfloat list" where
  "reconstruct_bool self a om b =
     (if 1 \<le> shape1 a then
        (if shape0 a = 0 then Inl IndexError
         else then_do (attr (poles self)) (\<lambda>ps.
              then_do (getitem ps 0) (\<lambda>p. Inl ValueError)))
      else
        then_do (attr (LR self)) (\<lambda>lr.
        if length lr = length om \<or> length lr = 1 \<or> length om = 1
        then then_do (attr (UR self)) (\<lambda>ur. Inl ValueError)
        else Inl ValueError))"

definition FRF_reconstruct :: "lscf \<Rightarrow> pyint \<Rightarrow> error + cfloat list" where
  "FRF_reconstruct self FRF_ind =
     then_do (attr (omega self)) (\<lambda>om.
     then_do (attr (A self)) (\<lambda>a.
     case FRF_ind of
       PyBool b \<Rightarrow> reconstruct_bool self a om b
     | PyInt k \<Rightarrow>
         then_do (for_each (reconstruct_step self a om k) [0..<shape1 a] (map (\<lambda>w. Some 0) om))
           (\<lambda>FRF_true.
         then_do (attr (LR self)) (\<lambda>lr.
         then_do (getitem lr k) (\<lambda>lr_k.
         then_do (attr (UR self)) (\<lambda>ur.
         then_do (getitem ur k) (\<lambda>ur_k.
         Inr (map2 cadd FRF_true (map (residual_term lr_k ur_k) om)))))))))"

text \<open>
  \<^verbatim>\<open>lsfd(whose_poles, FRF_ind, f_lower, f_upper, complex_mode, upper_r, lower_r)\<close>,
  lines 479-568, in two parts. The estimate, lines 479-548, sets \<^verbatim>\<open>self.A\<close>,
  \<^verbatim>\<open>self.LR\<close>, \<^verbatim>\<open>self.UR\<close> and \<^verbatim>\<open>self.poles\<close>. \<open>whose_poles\<close> is \<open>None\<close> for
  \<^verbatim>\<open>'own'\<close>. \<open>pinv g\<close> gives the entries of \<^verbatim>\<open>np.linalg.pinv(g)\<close>, whose shape is that
  of the transpose of \<open>g\<close>, or \<open>None\<close> when NumPy raises \<^verbatim>\<open>LinAlgError\<close>.
\<close>

definition selected_pole :: "lscf \<Rightarrow> int \<times> int \<Rightarrow> error + complex" where
  "selected_pole wp ind =
     then_do (attr (all_poles wp)) (\<lambda>ap.
     then_do (getitem ap (fst ind)) (\<lambda>order_poles.
     getitem order_poles (snd ind)))"

definition lsfd_estimate ::
  "(float ndarray2 \<Rightarrow> (nat \<Rightarrow> nat \<Rightarrow> float) option) \<Rightarrow> lscf \<Rightarrow> lscf option \<Rightarrow>
   real option \<Rightarrow> real option \<Rightarrow> bool \<Rightarrow> bool \<Rightarrow> bool \<Rightarrow> error + lscf" where
  "lsfd_estimate pinv self whose_poles f_lower f_upper complex_mode upper_r lower_r =
     (let wp = (case whose_poles of None \<Rightarrow> self | Some other \<Rightarrow> other) in
      then_do (attr (pole_ind wp)) (\<lambda>inds.
      then_do (collect (selected_pole wp) inds) (\<lambda>ps.
      then_do (case f_lower of None \<Rightarrow> attr (lower self) | Some v \<Rightarrow> Inr v) (\<lambda>fl.
      then_do (case f_upper of None \<Rightarrow> attr (upper self) | Some v \<Rightarrow> Inr v) (\<lambda>fu.
      then_do (attr (freq self)) (\<lambda>fr.
      then_do (argmin (map (\<lambda>x. \<bar>x - fl\<bar>) fr)) (\<lambda>lower_ind.
      then_do (argmin (map (\<lambda>x. \<bar>x - fu\<bar>) fr)) (\<lambda>upper_ind.
      let freq_band = drop lower_ind (take upper_ind fr) in
      then_do (attr (frf self)) (\<lambda>f.
      case f of
        Placeholder \<Rightarrow> Inl TypeError
      | Frf m \<Rightarrow>
          (let FRF_mat = cols_slice m lower_ind upper_ind;
               ome = map (\<lambda>x. 2 * pi * x) freq_band;
               M_2 = length ps;
               TA = lsfd_TA ome ps complex_mode upper_r lower_r in
           then_do (fmatmul (transpose2 TA) TA) (\<lambda>g.
           then_do (case pinv g of
                      None \<Rightarrow> Inl LinAlgError
                    | Some entries \<Rightarrow>
                        Inr \<lparr>shape0 = shape1 g, shape1 = shape0 g, item = entries\<rparr>) (\<lambda>gp.
           then_do (fmatmul gp (transpose2 TA)) (\<lambda>AT.
           let IO = shape0 m in
           then_do (lsfd_rows AT FRF_mat IO (2 * M_2 + 4)) (\<lambda>A_LSFD.
           let a = \<lparr>shape0 = IO, shape1 = M_2,
                    item = (\<lambda>v n. cneg (cplx (item A_LSFD v n) (item A_LSFD v (M_2 + n))))\<rparr>;
               lr = map (\<lambda>v. cplx (item A_LSFD v (2 * M_2)) (item A_LSFD v (2 * M_2 + 1))) [0..<IO];
               ur = map (\<lambda>v. cplx (item A_LSFD v (2 * M_2 + 2)) (item A_LSFD v (2 * M_2 + 3))) [0..<IO]
           in Inr (self\<lparr>A := Some a, LR := Some lr, UR := Some ur, poles := Some ps\<rparr>)))))))))))))))"

text \<open>
  The reconstruction, lines 551-568, on the object that the estimate has updated.
  The result is the returned value and that object. With \<^verbatim>\<open>'all'\<close> the row \<open>i\<close> of
  the matrix of shape \<open>(n, len(self.omega))\<close> is \<^verbatim>\<open>FRF_reconstruct(i)\<close>, which has
  the length of \<^verbatim>\<open>self.omega\<close>.
\<close>

definition lsfd ::
  "(float ndarray2 \<Rightarrow> (nat \<Rightarrow> nat \<Rightarrow> float) option) \<Rightarrow> lscf \<Rightarrow> lscf option \<Rightarrow> frf_ind \<Rightarrow>
   real option \<Rightarrow> real option \<Rightarrow> bool \<Rightarrow> bool \<Rightarrow> bool \<Rightarrow> error + (lsfd_result \<times> lscf)" where
  "lsfd pinv self0 whose_poles FRF_ind f_lower f_upper complex_mode upper_r lower_r =
     then_do (lsfd_estimate pinv self0 whose_poles f_lower f_upper complex_mode upper_r lower_r)
       (\<lambda>self.
     case FRF_ind of
       FRF_None \<Rightarrow> then_do (attr (A self)) (\<lambda>a. Inr (Modal a, self))
     | FRF_str s \<Rightarrow>
         if s = ''all'' then
           then_do (attr (frf self)) (\<lambda>f.
           case f of
             Placeholder \<Rightarrow> Inl AttributeError
           | Frf m \<Rightarrow>
               then_do (attr (omega self)) (\<lambda>om.
               then_do (collect (\<lambda>i. FRF_reconstruct self (PyInt (int i))) [0..<shape0 m])
                 (\<lambda>rows.
               then_do (attr (A self)) (\<lambda>a.
               Inr (FRF_all \<lparr>shape0 = shape0 m, shape1 = length om,
                             item = (\<lambda>i j. rows ! i ! j)\<rparr> a, self)))))
         else Inl (Exception FRF_ind_message)
     | FRF_int k \<Rightarrow>
         then_do (FRF_reconstruct self k) (\<lambda>row.
         then_do (attr (A self)) (\<lambda>a. Inr (FRF_row row a, self)))
     | FRF_other \<Rightarrow> Inl (Exception FRF_ind_message))"

subsection \<open>Notions used to state the properties\<close>

text \<open>Entry \<open>j\<close> of a frequency vector has a later entry closer than \<open>prec\<close>.\<close>

definition later_close :: "real list \<Rightarrow> real \<Rightarrow> nat \<Rightarrow> bool" where
  "later_close omega_arr prec j =
     (\<exists>i. j < i \<and> i < length omega_arr \<and> \<bar>omega_arr ! i - omega_arr ! j\<bar> < prec)"

text \<open>
  The frequencies and dampings of one order that survive \<^verbatim>\<open>redundant_values\<close> with
  the precision \<^verbatim>\<open>1e-3\<close> of line 722.
\<close>

definition survivors :: "complex list \<Rightarrow> nat list" where
  "survivors ps =
     filter (\<lambda>j. \<not> later_close (fst (complex_freq_to_freq_and_damp ps)) (1 / 1000) j)
       [0..<length ps]"

definition deduped_fn :: "complex list \<Rightarrow> float list" where
  "deduped_fn ps = map (\<lambda>k. Some (fst (complex_freq_to_freq_and_damp ps) ! k)) (survivors ps)"

definition deduped_xi :: "complex list \<Rightarrow> float list" where
  "deduped_xi ps = map (\<lambda>k. snd (complex_freq_to_freq_and_damp ps) ! k) (survivors ps)"

text \<open>
  Iteration \<open>n\<close> of the loop of \<^verbatim>\<open>stabilisation\<close> writes the column \<open>n - 1\<close>, which
  is the last column for \<open>n = 0\<close>; \<open>order_of_column\<close> is the inverse.
\<close>

definition column_of :: "nat \<Rightarrow> nat \<Rightarrow> nat" where
  "column_of nmax n = (if n = 0 then nmax - 1 else n - 1)"

definition order_of_column :: "nat \<Rightarrow> nat \<Rightarrow> nat" where
  "order_of_column nmax c = (if Suc c = nmax then 0 else Suc c)"

text \<open>A column that holds the list \<open>xs\<close> in its first rows and zeros below.\<close>

definition padded :: "float list \<Rightarrow> nat \<Rightarrow> float" where
  "padded xs r = (if r < length xs then xs ! r else Some 0)"

text \<open>
  The number of rows \<open>q < w\<close>, out of \<open>rows\<close>, whose entry \<open>col q\<close> matches \<open>x\<close>.
\<close>

definition window_count :: "float \<Rightarrow> (nat \<Rightarrow> float) \<Rightarrow> nat \<Rightarrow> nat \<Rightarrow> real \<Rightarrow> int" where
  "window_count x col rows w err = sum_list (take w (test_row x (map col [0..<rows]) err))"

text \<open>The four matrices have the shape \<open>(r, c)\<close>.\<close>

definition shaped :: "nat \<Rightarrow> nat \<Rightarrow> stab \<Rightarrow> bool" where
  "shaped r c s =
     (shape0 (fn_temp s) = r \<and> shape1 (fn_temp s) = c \<and> shape0 (xi_temp s) = r
      \<and> shape1 (xi_temp s) = c \<and> shape0 (test_fn s) = r \<and> shape1 (test_fn s) = c
      \<and> shape0 (test_xi s) = r \<and> shape1 (test_xi s) = c)"

text \<open>The column \<open>n - 2\<close> that iteration \<open>n\<close> compares with.\<close>

definition compared_column :: "nat \<Rightarrow> nat \<Rightarrow> nat" where
  "compared_column nmax n = (if n = 0 then nmax - 2 else n - 2)"

text \<open>
  The matrices after the iterations \<open>0, ..., m - 1\<close>: the column of an order that
  has run holds the surviving values of that order and zeros below; the test
  columns of the orders \<open>n \<ge> 2\<close> that have run hold the counts over the window of
  \<open>2 * n\<close> rows of the column of order \<open>n - 1\<close>.
\<close>

definition filled :: "complex list list \<Rightarrow> nat \<Rightarrow> real \<Rightarrow> real \<Rightarrow> nat \<Rightarrow> stab \<Rightarrow> bool" where
  "filled sr nmax err_fn err_xi m s =
     (shaped (2 * nmax) nmax s \<and>
      (\<forall>r c. c < nmax \<longrightarrow>
         (let n = order_of_column nmax c in
          item (fn_temp s) r c = (if n < m then padded (deduped_fn (sr ! n)) r else Some 0)
        \<and> item (xi_temp s) r c = (if n < m then padded (deduped_xi (sr ! n)) r else Some 0)
        \<and> item (test_fn s) r c =
            (if n < m \<and> 2 \<le> n \<and> r < length (deduped_fn (sr ! n))
             then window_count (deduped_fn (sr ! n) ! r) (padded (deduped_fn (sr ! (n - 1))))
                    (2 * nmax) (2 * n) err_fn
             else 0)
        \<and> item (test_xi s) r c =
            (if n < m \<and> 2 \<le> n \<and> r < length (deduped_fn (sr ! n))
             then window_count (deduped_xi (sr ! n) ! r) (padded (deduped_xi (sr ! (n - 1))))
                    (2 * nmax) (2 * n) err_xi
             else 0))))"

text \<open>The pole on the imaginary axis with the natural frequency \<open>f\<close> (in Hz).\<close>

definition undamped_pole :: "real \<Rightarrow> complex" where
  "undamped_pole f = Complex 0 (2 * pi * f)"

text \<open>The modal constants in a value that \<^verbatim>\<open>lsfd\<close> returns.\<close>

definition modal_of :: "lsfd_result \<Rightarrow> cfloat ndarray2" where
  "modal_of r = (case r of Modal a \<Rightarrow> a | FRF_row row a \<Rightarrow> a | FRF_all m a \<Rightarrow> a)"

text \<open>
  An object with two outputs, one frequency kept and one selected pole. The band
  between the lower and the upper index is empty, so \<^verbatim>\<open>TA.T @ TA\<close> is the zero matrix,
  whose pseudo-inverse is the zero matrix.
\<close>

definition two_outputs :: lscf where
  "two_outputs =
     new_object
       \<lparr>lower := Some 0, upper := Some 3,
        frf := Some (Frf \<lparr>shape0 = 2, shape1 = 1, item = (\<lambda>i j. 1)\<rparr>),
        freq := Some [1], pol_order_high := Some 1,
        omega := Some [2 * pi], sampling_time := Some (Finite (1 / 2)),
        all_poles := Some [[Complex (- 1) 1]], pole_ind := Some [(0, 0)]\<rparr>"

text \<open>The same object with an FRF of no row: no output.\<close>

definition no_outputs :: lscf where
  "no_outputs =
     new_object
       \<lparr>lower := Some 0, upper := Some 3,
        frf := Some (Frf \<lparr>shape0 = 0, shape1 = 1, item = (\<lambda>i j. 1)\<rparr>),
        freq := Some [1], pol_order_high := Some 1,
        omega := Some [2 * pi], sampling_time := Some (Finite (1 / 2)),
        all_poles := Some [[Complex (- 1) 1]], pole_ind := Some [(0, 0)]\<rparr>"

definition zero_pinv :: "float ndarray2 \<Rightarrow> (nat \<Rightarrow> nat \<Rightarrow> float) option" where
  "zero_pinv g = Some (\<lambda>i j. Some 0)"

text \<open>A result that is the code's own \<^verbatim>\<open>Exception\<close>.\<close>

definition raises_exception :: "error + 'a \<Rightarrow> bool" where
  "raises_exception r = (\<exists>msg. r = Inl (Exception msg))"


section \<open>Properties\<close>

subsection \<open>Sequencing, indices and the least entry\<close>

lemma then_do_Inr [simp]: "then_do (Inr x) f = f x"
  by (simp add: then_do_def)

lemma then_do_Inl [simp]: "then_do (Inl e) f = Inl e"
  by (simp add: then_do_def)

lemma then_do_eq_Inr: "then_do m f = Inr y \<longleftrightarrow> (\<exists>x. m = Inr x \<and> f x = Inr y)"
  by (cases m) simp_all

lemma attr_simps [simp]: "attr (Some v) = Inr v" "attr None = Inl AttributeError"
  by (simp_all add: attr_def)

lemma attr_eq_Inr [simp]: "attr a = Inr v \<longleftrightarrow> a = Some v"
  by (cases a) simp_all

lemma for_each_append:
  "for_each body (xs @ ys) s = then_do (for_each body xs s) (for_each body ys)"
  by (induction xs arbitrary: s) (simp_all add: then_do_def split: sum.splits)

lemma for_each_snoc:
  "for_each body (xs @ [x]) s = then_do (for_each body xs s) (body x)"
  by (simp add: for_each_append then_do_def split: sum.splits)

lemma py_index_nat [simp]: "py_index (int k) n = (if k < n then Inr k else Inl IndexError)"
  by (simp add: py_index_def)

lemma py_index_eq_Inr:
  "py_index i n = Inr k \<longleftrightarrow> (0 \<le> i \<and> i < int n \<and> k = nat i) \<or> (- int n \<le> i \<and> i < 0 \<and> k = nat (i + int n))"
  by (auto simp: py_index_def)

lemma py_index_bound: "py_index i n = Inr k \<Longrightarrow> k < n"
  by (auto simp: py_index_def split: if_splits)

lemma argmin_from_spec:
  assumes "full = pre @ xs" and "length pre = k" and "bi < k" and "best = full ! bi"
    and "\<forall>j<k. full ! bi \<le> full ! j" and "\<forall>j<bi. full ! bi < full ! j"
  shows "argmin_from best bi k xs < length full
       \<and> (\<forall>j<length full. full ! argmin_from best bi k xs \<le> full ! j)
       \<and> (\<forall>j<argmin_from best bi k xs. full ! argmin_from best bi k xs < full ! j)"
  using assms
proof (induction xs arbitrary: best bi k pre)
  case Nil
  then show ?case by auto
next
  case (Cons x xs)
  have xk: "full ! k = x" using Cons.prems by (simp add: nth_append)
  show ?case
  proof (cases "x < best")
    case True
    have "argmin_from x k (Suc k) xs < length full
       \<and> (\<forall>j<length full. full ! argmin_from x k (Suc k) xs \<le> full ! j)
       \<and> (\<forall>j<argmin_from x k (Suc k) xs. full ! argmin_from x k (Suc k) xs < full ! j)"
    proof (rule Cons.IH [of "pre @ [x]"])
      show "full = (pre @ [x]) @ xs" using Cons.prems by simp
      show "length (pre @ [x]) = Suc k" using Cons.prems by simp
      show "k < Suc k" by simp
      show "x = full ! k" using xk by simp
      show "\<forall>j<Suc k. full ! k \<le> full ! j"
        using Cons.prems True xk by (auto simp: less_Suc_eq intro: order.trans less_imp_le)
      show "\<forall>j<k. full ! k < full ! j"
        using Cons.prems True xk by (auto intro: less_le_trans)
    qed
    with True show ?thesis by simp
  next
    case False
    have "argmin_from best bi (Suc k) xs < length full
       \<and> (\<forall>j<length full. full ! argmin_from best bi (Suc k) xs \<le> full ! j)
       \<and> (\<forall>j<argmin_from best bi (Suc k) xs. full ! argmin_from best bi (Suc k) xs < full ! j)"
    proof (rule Cons.IH [of "pre @ [x]"])
      show "full = (pre @ [x]) @ xs" using Cons.prems by simp
      show "length (pre @ [x]) = Suc k" using Cons.prems by simp
      show "bi < Suc k" using Cons.prems by simp
      show "best = full ! bi" using Cons.prems by simp
      show "\<forall>j<Suc k. full ! bi \<le> full ! j"
        using Cons.prems False xk by (auto simp: less_Suc_eq)
      show "\<forall>j<bi. full ! bi < full ! j" using Cons.prems by simp
    qed
    with False show ?thesis by simp
  qed
qed

lemma argmin_spec:
  assumes "argmin xs = Inr k"
  shows "k < length xs \<and> (\<forall>j<length xs. xs ! k \<le> xs ! j) \<and> (\<forall>j<k. xs ! k < xs ! j)"
proof (cases xs)
  case Nil
  with assms show ?thesis by (simp add: argmin_def)
next
  case (Cons x rest)
  have k: "k = argmin_from x 0 1 rest" using assms Cons by (simp add: argmin_def)
  have "argmin_from x 0 1 rest < length xs
       \<and> (\<forall>j<length xs. xs ! argmin_from x 0 1 rest \<le> xs ! j)
       \<and> (\<forall>j<argmin_from x 0 1 rest. xs ! argmin_from x 0 1 rest < xs ! j)"
    by (rule argmin_from_spec [of xs "[x]" rest 1 0 x]) (simp_all add: Cons)
  then show ?thesis using k by simp
qed

lemma argmin_empty [simp]: "argmin [] = Inl ValueError"
  by (simp add: argmin_def)

lemma argmin_nonempty: "xs \<noteq> [] \<Longrightarrow> \<exists>k. argmin xs = Inr k"
  by (cases xs) (simp_all add: argmin_def)

subsection \<open>Construction\<close>

lemma getitem_last: "getitem xs (- 1) = (if xs = [] then Inl IndexError else Inr (last xs))"
  by (cases xs rule: rev_cases) (auto simp: getitem_def py_index_def nth_append)

lemma lscf_init_success:
  assumes "lscf_init frf_arg freq_arg dt lower_arg upper_arg order_arg False = Inr self"
  shows "\<exists>lo up f fr k p.
           lower_arg = Some lo \<and> 0 \<le> lo \<and> upper_arg = Some up \<and> lo \<le> up
         \<and> frf_arg = Some f \<and> freq_arg = Some (A1 fr)
         \<and> argmin (map (\<lambda>x. \<bar>x - up\<bar>) fr) = Inr k
         \<and> order_arg = Some p \<and> 0 < p
         \<and> (dt = None \<longrightarrow> take k fr \<noteq> [])
         \<and> self = new_object
              \<lparr>lower := Some lo, upper := Some up,
               frf := Some (Frf (cols_upto (as_matrix f) k)),
               freq := Some (take k fr),
               pol_order_high := Some p,
               omega := Some (map (\<lambda>x. 2 * pi * x) (take k fr)),
               sampling_time := Some (case dt of None \<Rightarrow> nyquist_dt (last (take k fr))
                                               | Some d \<Rightarrow> Finite d)\<rparr>"
proof (cases dt)
  case None
  show ?thesis
    using assms unfolding lscf_init_def Let_def None
    by (auto simp: then_do_eq_Inr getitem_last
             split: option.splits if_splits ndarray.splits prod.splits)
next
  case (Some d)
  show ?thesis
    using assms unfolding lscf_init_def Let_def Some
    by (auto simp: then_do_eq_Inr getitem_last
             split: option.splits if_splits ndarray.splits prod.splits)
qed


lemma cut_below_upper:
  assumes asc: "sorted_wrt (<) fr"
    and k: "argmin (map (\<lambda>x. \<bar>x - up\<bar>) fr) = Inr k"
    and j: "j < k"
  shows "fr ! j < up"
proof -
  from argmin_spec [OF k] have klt: "k < length fr"
    by simp
  from argmin_spec [OF k] j
  have first: "map (\<lambda>x. \<bar>x - up\<bar>) fr ! k < map (\<lambda>x. \<bar>x - up\<bar>) fr ! j"
    by blast
  have jlt: "j < length fr" using j klt by simp
  have lt: "fr ! j < fr ! k"
    using asc j klt by (simp add: sorted_wrt_iff_nth_less)
  have "\<bar>fr ! k - up\<bar> < \<bar>fr ! j - up\<bar>"
    using first klt jlt by simp
  with lt show ?thesis by linarith
qed

text \<open>
  Claim C4. When construction succeeds on a strictly ascending frequency vector
  \<open>fr\<close> and an FRF \<open>f\<close> with one column per frequency, the object holds the cut of
  both at the index \<open>k\<close> of the entry of \<open>fr\<close> nearest to \<open>upper\<close>: \<^verbatim>\<open>self.freq\<close> is
  the first \<open>k\<close> entries of \<open>fr\<close>, \<^verbatim>\<open>self.frf\<close> is the first \<open>k\<close> columns of \<open>f\<close>, with
  all its rows. The frequency vector kept has as many entries as the FRF kept has
  columns; every entry kept, the last one among them, lies below \<open>upper\<close>; and
  without an explicit \<^verbatim>\<open>dt\<close> the vector kept is not empty. Success implies
  \<open>0 \<le> lower \<le> upper\<close>.
\<close>

theorem lscf_init_truncates:
  assumes init: "lscf_init (Some f) (Some (A1 fr)) dt lower_arg (Some up) order_arg False = Inr self"
    and asc: "sorted_wrt (<) fr"
    and cols: "shape1 (as_matrix f) = length fr"
  shows "\<exists>k fr' m'.
             argmin (map (\<lambda>x. \<bar>x - up\<bar>) fr) = Inr k \<and> k < length fr
           \<and> fr' = take k fr
           \<and> shape0 m' = shape0 (as_matrix f) \<and> shape1 m' = k
           \<and> (\<forall>i j. item m' i j = item (as_matrix f) i j)
           \<and> freq self = Some fr' \<and> frf self = Some (Frf m')
           \<and> length fr' = shape1 m'
           \<and> (fr' \<noteq> [] \<longrightarrow> last fr' \<le> up)
           \<and> (\<forall>x \<in> set fr'. x < up)
           \<and> (dt = None \<longrightarrow> fr' \<noteq> [])"
proof -
  from lscf_init_success [OF init] obtain lo p k where
    k: "argmin (map (\<lambda>x. \<bar>x - up\<bar>) fr) = Inr k"
    and ne: "dt = None \<longrightarrow> take k fr \<noteq> []"
    and self: "self = new_object
              \<lparr>lower := Some lo, upper := Some up,
               frf := Some (Frf (cols_upto (as_matrix f) k)),
               freq := Some (take k fr),
               pol_order_high := Some p,
               omega := Some (map (\<lambda>x. 2 * pi * x) (take k fr)),
               sampling_time := Some (case dt of None \<Rightarrow> nyquist_dt (last (take k fr))
                                               | Some d \<Rightarrow> Finite d)\<rparr>"
    by auto
  have klt: "k < length fr" using argmin_spec [OF k] by simp
  have below: "\<forall>x \<in> set (take k fr). x < up"
  proof
    fix x assume "x \<in> set (take k fr)"
    then obtain j where "j < k" "x = fr ! j"
      using klt by (auto simp: in_set_conv_nth)
    then show "x < up" using cut_below_upper [OF asc k] by simp
  qed
  have fq: "freq self = Some (take k fr)" by (simp add: self)
  have ff: "frf self = Some (Frf (cols_upto (as_matrix f) k))" by (simp add: self)
  have sh0: "shape0 (cols_upto (as_matrix f) k) = shape0 (as_matrix f)"
    by (simp add: cols_upto_def)
  have sh1: "shape1 (cols_upto (as_matrix f) k) = k"
    using klt cols by (simp add: cols_upto_def min_def)
  have it: "\<forall>i j. item (cols_upto (as_matrix f) k) i j = item (as_matrix f) i j"
    by (simp add: cols_upto_def)
  have len: "length (take k fr) = shape1 (cols_upto (as_matrix f) k)"
    using klt sh1 by simp
  have lst: "take k fr \<noteq> [] \<longrightarrow> last (take k fr) \<le> up"
    using below last_in_set [of "take k fr"] by fastforce
  show ?thesis using k klt fq ff sh0 sh1 it len lst below ne by blast
qed


lemma init_example:
  "\<exists>self. lscf_init (Some (A1 [1, 2, 3])) (Some (A1 [1, 2, 3])) None (Some 0) (Some 3) (Some 1) False
            = Inr self"
  by (simp add: lscf_init_def argmin_def getitem_def py_index_def Let_def)

theorem lscf_init_truncates_witness:
  "\<exists>self. lscf_init (Some (A1 [1, 2, 3])) (Some (A1 [1, 2, 3])) None (Some 0) (Some 3) (Some 1) False
            = Inr self
     \<and> sorted_wrt (<) [1, 2, 3 :: real]
     \<and> freq self = Some [1, 2]
     \<and> (\<exists>m'. frf self = Some (Frf m') \<and> shape0 m' = 1 \<and> shape1 m' = 2
            \<and> item m' 0 0 = 1 \<and> item m' 0 1 = 2)
     \<and> last [1, 2 :: real] \<le> 3"
proof -
  from init_example obtain self where
    init: "lscf_init (Some (A1 [1, 2, 3])) (Some (A1 [1, 2, 3])) None (Some 0) (Some 3) (Some 1) False
            = Inr self" ..
  have asc: "sorted_wrt (<) [1, 2, 3 :: real]" by simp
  have cols: "shape1 (as_matrix (A1 [1, 2, 3 :: complex])) = length [1, 2, 3 :: real]"
    by (simp add: as_matrix_def as_row_def)
  have k: "argmin (map (\<lambda>x. \<bar>x - 3\<bar>) [1, 2, 3 :: real]) = Inr 2"
    by (simp add: argmin_def)
  from lscf_init_truncates [OF init asc cols] obtain j m' where
    "argmin (map (\<lambda>x. \<bar>x - 3\<bar>) [1, 2, 3 :: real]) = Inr j"
    "freq self = Some (take j [1, 2, 3])" "frf self = Some (Frf m')"
    "shape0 m' = shape0 (as_matrix (A1 [1, 2, 3 :: complex]))" "shape1 m' = j"
    "\<forall>i j. item m' i j = item (as_matrix (A1 [1, 2, 3 :: complex])) i j"
    by blast
  with k have "freq self = Some [1, 2]" "frf self = Some (Frf m')" "shape0 m' = 1"
    "shape1 m' = 2" "item m' 0 0 = 1" "item m' 0 1 = 2"
    by (simp_all add: as_matrix_def as_row_def)
  with init asc show ?thesis by auto
qed

lemma lscf_init_lower_negative:
  assumes "lower_arg = Some lo" and "lo < 0"
  shows "lscf_init frf_arg freq_arg dt lower_arg upper_arg order_arg pyfrf
           = Inl (Exception ''lower must be positive or equal to zero'')"
  using assms by (simp add: lscf_init_def)

lemma lscf_init_upper_below:
  assumes "lower_arg = Some lo" and "0 \<le> lo" and "upper_arg = Some up" and "up < lo"
  shows "lscf_init frf_arg freq_arg dt lower_arg upper_arg order_arg pyfrf
           = Inl (Exception ''upper must be greater than lower'')"
  using assms by (simp add: lscf_init_def)

lemma lscf_init_order_fails:
  assumes "order_arg = Some p" and "p \<le> 0"
  shows "isl (lscf_init frf_arg freq_arg dt lower_arg upper_arg order_arg pyfrf)"
  using assms unfolding lscf_init_def Let_def
  by (auto simp: then_do_def split: option.splits sum.splits ndarray.splits prod.splits)

lemma lscf_init_order_message:
  assumes "order_arg = Some p" and "p \<le> 0"
    and "lower_arg = Some lo" and "0 \<le> lo" and "upper_arg = Some up" and "lo \<le> up"
    and "pyfrf \<or> (frf_arg = Some f \<and> freq_arg = Some (A1 fr) \<and> fr \<noteq> [])"
  shows "lscf_init frf_arg freq_arg dt lower_arg upper_arg order_arg pyfrf
           = Inl (Exception ''pol_order_high must be positive'')"
proof (cases pyfrf)
  case True
  with assms show ?thesis by (simp add: lscf_init_def Let_def)
next
  case False
  with assms have fr: "fr \<noteq> []" and args: "frf_arg = Some f" "freq_arg = Some (A1 fr)"
    by simp_all
  from argmin_nonempty [of "map (\<lambda>x. \<bar>x - up\<bar>) fr"] fr
  obtain k where "argmin (map (\<lambda>x. \<bar>x - up\<bar>) fr) = Inr k" by auto
  with assms False args show ?thesis by (simp add: lscf_init_def Let_def)
qed

lemma lscf_init_ignores_frf_shape:
  "isl (lscf_init (Some f) freq_arg dt lower_arg upper_arg order_arg pyfrf)
     = isl (lscf_init (Some f') freq_arg dt lower_arg upper_arg order_arg pyfrf)"
  unfolding lscf_init_def Let_def
  by (auto simp: then_do_def attr_def split: option.splits sum.splits ndarray.splits prod.splits)

text \<open>
  Claim C2, as amended. Construction fails with the code's \<^verbatim>\<open>Exception\<close> when
  \<open>lower < 0\<close> and, for \<open>lower \<ge> 0\<close>, when \<open>upper < lower\<close>. A non-positive
  \<^verbatim>\<open>pol_order_high\<close> always makes it fail, and with the message of the order check
  whenever the steps before that check pass (the bounds, and unless \<^verbatim>\<open>pyfrf\<close> is set
  a given \<^verbatim>\<open>frf\<close> and a non-empty 1-D \<^verbatim>\<open>freq\<close>): the order is validated after the cut
  at \<^verbatim>\<open>upper\<close>, not before it. The shapes of \<^verbatim>\<open>frf\<close> and \<^verbatim>\<open>freq\<close> are never compared:
  whether construction fails does not depend on the \<^verbatim>\<open>frf\<close> given.
\<close>

theorem lscf_init_validation:
  "(lower_arg = Some lo \<and> lo < 0 \<longrightarrow>
      lscf_init frf_arg freq_arg dt lower_arg upper_arg order_arg pyfrf
        = Inl (Exception ''lower must be positive or equal to zero''))
 \<and> (lower_arg = Some lo \<and> 0 \<le> lo \<and> upper_arg = Some up \<and> up < lo \<longrightarrow>
      lscf_init frf_arg freq_arg dt lower_arg upper_arg order_arg pyfrf
        = Inl (Exception ''upper must be greater than lower''))
 \<and> (order_arg = Some p \<and> p \<le> 0 \<longrightarrow>
      isl (lscf_init frf_arg freq_arg dt lower_arg upper_arg order_arg pyfrf))
 \<and> (order_arg = Some p \<and> p \<le> 0 \<and> lower_arg = Some lo \<and> 0 \<le> lo \<and> upper_arg = Some up
      \<and> lo \<le> up \<and> (pyfrf \<or> (frf_arg = Some f \<and> freq_arg = Some (A1 fr) \<and> fr \<noteq> [])) \<longrightarrow>
      lscf_init frf_arg freq_arg dt lower_arg upper_arg order_arg pyfrf
        = Inl (Exception ''pol_order_high must be positive''))
 \<and> isl (lscf_init (Some f) freq_arg dt lower_arg upper_arg order_arg pyfrf)
     = isl (lscf_init (Some f') freq_arg dt lower_arg upper_arg order_arg pyfrf)"
proof (intro conjI impI)
  assume "lower_arg = Some lo \<and> lo < 0"
  then show "lscf_init frf_arg freq_arg dt lower_arg upper_arg order_arg pyfrf
        = Inl (Exception ''lower must be positive or equal to zero'')"
    by (simp add: lscf_init_lower_negative)
next
  assume "lower_arg = Some lo \<and> 0 \<le> lo \<and> upper_arg = Some up \<and> up < lo"
  then show "lscf_init frf_arg freq_arg dt lower_arg upper_arg order_arg pyfrf
        = Inl (Exception ''upper must be greater than lower'')"
    by (simp add: lscf_init_upper_below)
next
  assume "order_arg = Some p \<and> p \<le> 0"
  then show "isl (lscf_init frf_arg freq_arg dt lower_arg upper_arg order_arg pyfrf)"
    by (simp add: lscf_init_order_fails)
next
  assume h: "order_arg = Some p \<and> p \<le> 0 \<and> lower_arg = Some lo \<and> 0 \<le> lo \<and> upper_arg = Some up
      \<and> lo \<le> up \<and> (pyfrf \<or> (frf_arg = Some f \<and> freq_arg = Some (A1 fr) \<and> fr \<noteq> []))"
  show "lscf_init frf_arg freq_arg dt lower_arg upper_arg order_arg pyfrf
        = Inl (Exception ''pol_order_high must be positive'')"
    by (rule lscf_init_order_message [of order_arg p lower_arg lo upper_arg up pyfrf frf_arg f
          freq_arg fr]) (use h in simp_all)
next
  show "isl (lscf_init (Some f) freq_arg dt lower_arg upper_arg order_arg pyfrf)
     = isl (lscf_init (Some f') freq_arg dt lower_arg upper_arg order_arg pyfrf)"
    by (rule lscf_init_ignores_frf_shape)
qed

theorem lscf_init_validation_witness:
  "lscf_init (Some (A1 [1, 2])) (Some (A1 [1, 2])) None (Some (- 1)) (Some 2) (Some 1) False
     = Inl (Exception ''lower must be positive or equal to zero'')
 \<and> lscf_init (Some (A1 [1, 2])) (Some (A1 [1, 2])) None (Some 3) (Some 2) (Some 1) False
     = Inl (Exception ''upper must be greater than lower'')
 \<and> isl (lscf_init (Some (A1 [1, 2])) (Some (A1 [1, 2])) None (Some 0) (Some 2) (Some 0) False)
 \<and> lscf_init (Some (A1 [1, 2])) (Some (A1 [1, 2])) None (Some 0) (Some 2) (Some 0) False
     = Inl (Exception ''pol_order_high must be positive'')"
  using lscf_init_validation
          [where lower_arg = "Some (- 1)" and lo = "- 1" and frf_arg = "Some (A1 [1, 2])"
             and freq_arg = "Some (A1 [1, 2])" and dt = None and upper_arg = "Some 2"
             and order_arg = "Some 1" and pyfrf = False]
        lscf_init_validation
          [where lower_arg = "Some 3" and lo = 3 and frf_arg = "Some (A1 [1, 2])"
             and freq_arg = "Some (A1 [1, 2])" and dt = None and upper_arg = "Some 2"
             and up = 2 and order_arg = "Some 1" and pyfrf = False]
        lscf_init_validation
          [where lower_arg = "Some 0" and lo = 0 and frf_arg = "Some (A1 [1, 2])"
             and freq_arg = "Some (A1 [1, 2])" and dt = None and upper_arg = "Some 2"
             and up = 2 and order_arg = "Some 0" and p = 0 and pyfrf = False
             and f = "A1 [1, 2]" and fr = "[1, 2]"]
  by simp

text \<open>
  Claim C2 as stated fails at three inputs: an FRF with one column and a frequency
  vector of three entries are accepted, and the object keeps one column against
  two frequencies; \<open>upper = lower\<close> is accepted; and with an empty frequency vector
  and the order \<open>0\<close> the cut runs first and raises \<^verbatim>\<open>ValueError\<close> from \<^verbatim>\<open>np.argmin\<close>,
  before the order is looked at.
\<close>

theorem lscf_init_validation_counterexample:
  "\<not> isl (lscf_init (Some (A1 [1])) (Some (A1 [1, 2, 3])) None (Some 0) (Some 3) (Some 1) False)
 \<and> freq (projr (lscf_init (Some (A1 [1])) (Some (A1 [1, 2, 3])) None (Some 0) (Some 3) (Some 1) False))
     = Some [1, 2]
 \<and> frf (projr (lscf_init (Some (A1 [1])) (Some (A1 [1, 2, 3])) None (Some 0) (Some 3) (Some 1) False))
     = Some (Frf (cols_upto (as_matrix (A1 [1])) 2))
 \<and> shape1 (cols_upto (as_matrix (A1 [1 :: complex])) 2) = 1
 \<and> \<not> isl (lscf_init (Some (A1 [1, 1])) (Some (A1 [1, 2])) None (Some 2) (Some 2) (Some 1) False)
 \<and> lscf_init (Some (A1 [])) (Some (A1 [])) None (Some 0) (Some 1) (Some 0) False = Inl ValueError"
  by (simp add: lscf_init_def argmin_def getitem_def py_index_def Let_def cols_upto_def
        as_matrix_def as_row_def)

subsection \<open>Frequency and damping of a pole\<close>

lemma sgn_cmod_nonzero: "Im s \<noteq> 0 \<Longrightarrow> sgn (Im s) * cmod s \<noteq> 0"
  by (auto simp: sgn_if)

lemma length_freq_and_damp [simp]:
  "length (fst (complex_freq_to_freq_and_damp sr)) = length sr"
  "length (snd (complex_freq_to_freq_and_damp sr)) = length sr"
  by (simp_all add: complex_freq_to_freq_and_damp_def)

text \<open>
  Claim C6. A pole \<open>p = a + b i\<close> with \<open>b \<noteq> 0\<close> that is built from a pair
  \<open>(fr, xi)\<close> by the inverse relation (\<open>fr_unscaled = sign b * |p|\<close>,
  \<open>a = - xi * fr_unscaled\<close>, \<open>fr = fr_unscaled / (2 pi)\<close>) is mapped back to exactly
  that pair, at every position of the array handed to
  \<^verbatim>\<open>complex_freq_to_freq_and_damp\<close>. The arithmetic is exact real arithmetic.
\<close>

theorem complex_freq_to_freq_and_damp_roundtrip:
  assumes "i < length sr"
    and "Im (sr ! i) \<noteq> 0"
    and "fr_unscaled = sgn (Im (sr ! i)) * cmod (sr ! i)"
    and "Re (sr ! i) = - xi * fr_unscaled"
    and "fr = fr_unscaled / (2 * pi)"
  shows "fst (complex_freq_to_freq_and_damp sr) ! i = fr
       \<and> snd (complex_freq_to_freq_and_damp sr) ! i = Some xi
       \<and> length (fst (complex_freq_to_freq_and_damp sr)) = length sr
       \<and> length (snd (complex_freq_to_freq_and_damp sr)) = length sr"
proof -
  have nz: "fr_unscaled \<noteq> 0"
    using assms(2,3) sgn_cmod_nonzero by simp
  have "snd (freq_and_damp (sr ! i)) = Some xi"
    using nz assms(3,4) by (simp add: freq_and_damp_def np_div_def Let_def)
  moreover have "fst (freq_and_damp (sr ! i)) = fr"
    using assms(3,5) by (simp add: freq_and_damp_def Let_def)
  ultimately show ?thesis
    using assms(1) by (simp add: complex_freq_to_freq_and_damp_def)
qed

lemma cmod_3_4: "cmod (Complex (- 3) 4) = 5"
proof -
  have "cmod (Complex (- 3) 4) = sqrt (5\<^sup>2)"
    by (simp add: cmod_def)
  then show ?thesis by simp
qed

theorem complex_freq_to_freq_and_damp_roundtrip_witness:
  "fst (complex_freq_to_freq_and_damp [Complex (- 3) 4]) ! 0 = 5 / (2 * pi)
 \<and> snd (complex_freq_to_freq_and_damp [Complex (- 3) 4]) ! 0 = Some (3 / 5)"
  using complex_freq_to_freq_and_damp_roundtrip
          [of 0 "[Complex (- 3) 4]" 5 "3 / 5" "5 / (2 * pi)"]
  by (simp add: cmod_3_4)

subsection \<open>Sampling time and poles\<close>












subsection \<open>Redundant values\<close>

lemma sum_list_indicator_pos:
  "(sum_list (map (\<lambda>i. if P i then 1 else 0) xs) < (1::int)) = (\<forall>i \<in> set xs. \<not> P i)"
proof (induction xs)
  case Nil
  then show ?case by simp
next
  case (Cons x xs)
  have nn: "0 \<le> sum_list (map (\<lambda>i. if P i then 1 else (0::int)) xs)"
    by (rule sum_list_nonneg) auto
  show ?case using Cons nn by auto
qed

lemma keep_eq:
  "argwhere (\<lambda>t. t < 1)
     (sum_axis0 (length omega_arr) (length omega_arr) (test_omega omega_arr prec))
     = filter (\<lambda>j. \<not> later_close omega_arr prec j) [0..<length omega_arr]"
  unfolding argwhere_def sum_axis0_def
  apply simp
  apply (rule filter_cong, simp)
  apply (simp add: test_omega_def[abs_def] sum_list_indicator_pos later_close_def)
  apply auto
  done

lemma redundant_values_eq:
  assumes "length xi = length omega_arr"
  shows "redundant_values omega_arr xi prec =
           Inr (map (\<lambda>k. omega_arr ! k)
                  (filter (\<lambda>j. \<not> later_close omega_arr prec j) [0..<length omega_arr]),
                map (\<lambda>k. xi ! k)
                  (filter (\<lambda>j. \<not> later_close omega_arr prec j) [0..<length omega_arr]))"
  unfolding redundant_values_def Let_def keep_eq take_idx_def
  using assms by simp

lemma map_nth_filter_neq:
  assumes "a < length xs"
  shows "map (\<lambda>k. xs ! k) (filter (\<lambda>j. j \<noteq> a) [0..<length xs]) = take a xs @ drop (Suc a) xs"
proof -
  have split: "[0..<length xs] = [0..<a] @ [a] @ [Suc a..<length xs]"
    using assms
    by (metis append_Cons append_Nil le0 less_imp_le upt_add_eq_append upt_conv_Cons
          le_add_diff_inverse)
  have f1: "filter (\<lambda>j. j \<noteq> a) [0..<a] = [0..<a]" by (rule filter_True) auto
  have f2: "filter (\<lambda>j. j \<noteq> a) [Suc a..<length xs] = [Suc a..<length xs]"
    by (rule filter_True) auto
  have m1: "map (\<lambda>k. xs ! k) [0..<a] = take a xs"
    using assms by (intro nth_equalityI) auto
  have m2: "map (\<lambda>k. xs ! k) [Suc a..<length xs] = drop (Suc a) xs"
    using assms by (intro nth_equalityI) auto
  show ?thesis
    by (subst split) (simp add: f1 f2 m1 m2 del: upt_Suc)
qed

lemma redundant_values_far_apart:
  assumes len: "length xi = length omega_arr"
    and far: "\<forall>i j. j < i \<and> i < length omega_arr \<longrightarrow> \<not> \<bar>omega_arr ! i - omega_arr ! j\<bar> < prec"
  shows "redundant_values omega_arr xi prec = Inr (omega_arr, xi)"
proof -
  have keep: "filter (\<lambda>j. \<not> later_close omega_arr prec j) [0..<length omega_arr]
                = [0..<length omega_arr]"
    by (rule filter_True) (use far in \<open>auto simp: later_close_def\<close>)
  have "map (\<lambda>k. omega_arr ! k) [0..<length omega_arr] = omega_arr" by (rule map_nth)
  moreover have "map (\<lambda>k. xi ! k) [0..<length omega_arr] = xi"
    using len map_nth [of xi] by simp
  ultimately show ?thesis
    by (simp add: redundant_values_eq [OF len] keep)
qed

text \<open>
  Claim C5. With a damping vector as long as the frequency vector: when exactly one
  pair of entries, at the positions \<open>a < b\<close>, differs by less than \<open>prec\<close>, the
  outputs are the inputs without the entry at \<open>a\<close> (the earlier of the two), one
  entry fewer; when no two entries differ by less than \<open>prec\<close>, the outputs hold the
  entries of the inputs (NumPy returns them as a column of shape \<open>(N, 1)\<close>).
\<close>

theorem redundant_values_dedup:
  assumes len: "length xi = length omega_arr"
  shows "(a < b \<and> b < length omega_arr \<and> \<bar>omega_arr ! b - omega_arr ! a\<bar> < prec
           \<and> (\<forall>i j. j < i \<and> i < length omega_arr \<and> (j, i) \<noteq> (a, b)
                  \<longrightarrow> \<not> \<bar>omega_arr ! i - omega_arr ! j\<bar> < prec)
         \<longrightarrow> (\<exists>omega_mod xi_mod.
                redundant_values omega_arr xi prec = Inr (omega_mod, xi_mod)
              \<and> length omega_mod = length omega_arr - 1
              \<and> length xi_mod = length xi - 1
              \<and> omega_mod = take a omega_arr @ drop (Suc a) omega_arr
              \<and> xi_mod = take a xi @ drop (Suc a) xi))
       \<and> ((\<forall>i j. j < i \<and> i < length omega_arr \<longrightarrow> \<not> \<bar>omega_arr ! i - omega_arr ! j\<bar> < prec)
         \<longrightarrow> redundant_values omega_arr xi prec = Inr (omega_arr, xi))"
proof (intro conjI impI)
  assume h: "a < b \<and> b < length omega_arr \<and> \<bar>omega_arr ! b - omega_arr ! a\<bar> < prec
           \<and> (\<forall>i j. j < i \<and> i < length omega_arr \<and> (j, i) \<noteq> (a, b)
                  \<longrightarrow> \<not> \<bar>omega_arr ! i - omega_arr ! j\<bar> < prec)"
  then have a: "a < length omega_arr" by simp
  have lc: "\<And>j. j < length omega_arr \<Longrightarrow> later_close omega_arr prec j = (j = a)"
    using h unfolding later_close_def by (metis prod.inject)
  have keep: "filter (\<lambda>j. \<not> later_close omega_arr prec j) [0..<length omega_arr]
                = filter (\<lambda>j. j \<noteq> a) [0..<length omega_arr]"
    by (rule filter_cong) (auto simp: lc)
  have m_om: "map (\<lambda>k. omega_arr ! k) (filter (\<lambda>j. j \<noteq> a) [0..<length omega_arr])
                = take a omega_arr @ drop (Suc a) omega_arr"
    using a by (rule map_nth_filter_neq)
  have m_xi: "map (\<lambda>k. xi ! k) (filter (\<lambda>j. j \<noteq> a) [0..<length omega_arr])
                = take a xi @ drop (Suc a) xi"
    using a len map_nth_filter_neq [of a xi] by simp
  have "redundant_values omega_arr xi prec
          = Inr (take a omega_arr @ drop (Suc a) omega_arr, take a xi @ drop (Suc a) xi)"
    by (simp add: redundant_values_eq [OF len] keep m_om m_xi)
  moreover have "length (take a omega_arr @ drop (Suc a) omega_arr) = length omega_arr - 1"
    using a by simp
  moreover have "length (take a xi @ drop (Suc a) xi) = length xi - 1"
    using a len by simp
  ultimately show "\<exists>omega_mod xi_mod.
                redundant_values omega_arr xi prec = Inr (omega_mod, xi_mod)
              \<and> length omega_mod = length omega_arr - 1
              \<and> length xi_mod = length xi - 1
              \<and> omega_mod = take a omega_arr @ drop (Suc a) omega_arr
              \<and> xi_mod = take a xi @ drop (Suc a) xi"
    by simp
next
  assume "\<forall>i j. j < i \<and> i < length omega_arr \<longrightarrow> \<not> \<bar>omega_arr ! i - omega_arr ! j\<bar> < prec"
  then show "redundant_values omega_arr xi prec = Inr (omega_arr, xi)"
    using len by (simp add: redundant_values_far_apart)
qed

theorem redundant_values_dedup_witness:
  "redundant_values [1, 5, 1.0005, 9] [Some (0.1::real), Some 0.2, None, Some 0.4] 0.001
      = Inr ([5, 1.0005, 9], [Some 0.2, None, Some 0.4])
 \<and> redundant_values [1, 5, 9] [Some (0.1::real), None, Some 0.4] 0.001
      = Inr ([1, 5, 9], [Some 0.1, None, Some 0.4])"
  using redundant_values_dedup
          [of "[Some (0.1::real), Some 0.2, None, Some 0.4]" "[1, 5, 1.0005, 9]" 0 2 "0.001"]
        redundant_values_dedup
          [of "[Some (0.1::real), None, Some 0.4]" "[1, 5, 9]" 0 2 "0.001"]
  by (simp add: nth_Cons' less_Suc_eq all_conj_distrib)

subsection \<open>The stabilisation matrices\<close>

lemma length_survivors_fn [simp]: "length (deduped_xi ps) = length (deduped_fn ps)"
  by (simp add: deduped_fn_def deduped_xi_def)

lemma redundant_values_poles:
  "redundant_values (fst (complex_freq_to_freq_and_damp ps))
     (snd (complex_freq_to_freq_and_damp ps)) (1 / 1000)
     = Inr (map (\<lambda>k. fst (complex_freq_to_freq_and_damp ps) ! k) (survivors ps), deduped_xi ps)"
  by (simp add: redundant_values_eq deduped_xi_def survivors_def)

lemma setitem2_nat:
  "setitem2 m (int i) j v = Inr m' \<longleftrightarrow>
     i < shape0 m \<and> (\<exists>c. py_index j (shape1 m) = Inr c
                        \<and> m' = m\<lparr>item := (item m)(i := (item m i)(c := v))\<rparr>)"
  by (auto simp: setitem2_def then_do_eq_Inr)

lemma getcol_Inr:
  "getcol m j = Inr col \<longleftrightarrow>
     (\<exists>c. py_index j (shape1 m) = Inr c \<and> col = map (\<lambda>r. item m r c) [0..<shape0 m])"
  by (auto simp: getcol_def then_do_eq_Inr)

lemma py_index_written:
  "n < c \<Longrightarrow> py_index (int n - 1) c = Inr (column_of c n)"
  by (auto simp: py_index_def column_of_def nat_diff_distrib)

lemma py_index_compared:
  assumes "py_index (int n - 2) c = Inr c2" and "n < c" and "n \<noteq> 1"
  shows "c2 = compared_column c n \<and> c2 \<noteq> column_of c n \<and> c2 < c \<and> (2 \<le> n \<or> (n = 0 \<and> 2 \<le> c))"
  using assms
  by (auto simp: py_index_def column_of_def compared_column_def nat_diff_distrib
           split: if_splits)

lemma column_of_bound: "n < c \<Longrightarrow> column_of c n < c"
  by (auto simp: column_of_def)

lemma order_of_column_of: "n < c \<Longrightarrow> order_of_column c (column_of c n) = n"
  by (auto simp: column_of_def order_of_column_def)

lemma order_of_column_inj:
  "c1 < c \<Longrightarrow> c2 < c \<Longrightarrow> order_of_column c c1 = order_of_column c c2 \<Longrightarrow> c1 = c2"
  by (auto simp: order_of_column_def split: if_splits)

lemma order_of_column_bound: "c1 < c \<Longrightarrow> order_of_column c c1 < c"
  by (auto simp: order_of_column_def)

lemma stab_row_Inr:
  assumes row: "stab_row err_fn err_xi n fn xi i s = Inr s'"
    and sh: "shaped r c s" and n: "n < c" "n \<noteq> 1"
  shows "i < r \<and> compared_column c n \<noteq> column_of c n \<and> compared_column c n < c
       \<and> fn_temp s' = (fn_temp s)\<lparr>item := (item (fn_temp s))
                         (i := (item (fn_temp s) i)(column_of c n := Some (fn ! i)))\<rparr>
       \<and> xi_temp s' = (xi_temp s)\<lparr>item := (item (xi_temp s))
                         (i := (item (xi_temp s) i)(column_of c n := xi ! i))\<rparr>
       \<and> test_fn s' = (test_fn s)\<lparr>item := (item (test_fn s))
                         (i := (item (test_fn s) i)(column_of c n :=
                            window_count (Some (fn ! i))
                              (\<lambda>q. item (fn_temp s) q (compared_column c n)) r (2 * n) err_fn))\<rparr>
       \<and> test_xi s' = (test_xi s)\<lparr>item := (item (test_xi s))
                         (i := (item (test_xi s) i)(column_of c n :=
                            window_count (xi ! i)
                              (\<lambda>q. item (xi_temp s) q (compared_column c n)) r (2 * n) err_xi))\<rparr>"
proof -
  from sh have shp: "shape0 (fn_temp s) = r" "shape1 (fn_temp s) = c" "shape0 (xi_temp s) = r"
    "shape1 (xi_temp s) = c" "shape0 (test_fn s) = r" "shape1 (test_fn s) = c"
    "shape0 (test_xi s) = r" "shape1 (test_xi s) = c"
    by (simp_all add: shaped_def)
  from row obtain fn_col xi_col ft xt tf tx where
    fc: "getcol (fn_temp s) (int n - 2) = Inr fn_col"
    and xc: "getcol (xi_temp s) (int n - 2) = Inr xi_col"
    and ft: "setitem2 (fn_temp s) (int i) (int n - 1) (Some (fn ! i)) = Inr ft"
    and xt: "setitem2 (xi_temp s) (int i) (int n - 1) (xi ! i) = Inr xt"
    and tf: "setitem2 (test_fn s) (int i) (int n - 1)
               (sum_list (take (2 * n) (test_row (Some (fn ! i)) fn_col err_fn))) = Inr tf"
    and tx: "setitem2 (test_xi s) (int i) (int n - 1)
               (sum_list (take (2 * n) (test_row (xi ! i) xi_col err_xi))) = Inr tx"
    and s': "s' = \<lparr>fn_temp = ft, xi_temp = xt, test_fn = tf, test_xi = tx\<rparr>"
    unfolding stab_row_def Let_def by (auto simp: then_do_eq_Inr)
  from fc obtain c2 where c2: "py_index (int n - 2) c = Inr c2"
    and fcol: "fn_col = map (\<lambda>q. item (fn_temp s) q c2) [0..<r]"
    by (auto simp: getcol_Inr shp)
  from xc c2 have xcol: "xi_col = map (\<lambda>q. item (xi_temp s) q c2) [0..<r]"
    by (auto simp: getcol_Inr shp)
  from py_index_compared [OF c2 n]
  have c2eq: "c2 = compared_column c n" and ne: "c2 \<noteq> column_of c n" and lt: "c2 < c"
    by simp_all
  have w: "py_index (int n - 1) c = Inr (column_of c n)"
    using n by (simp add: py_index_written)
  from ft w have i: "i < r"
    and ft': "ft = (fn_temp s)\<lparr>item := (item (fn_temp s))
                         (i := (item (fn_temp s) i)(column_of c n := Some (fn ! i)))\<rparr>"
    by (auto simp: setitem2_nat shp)
  from xt w have xt': "xt = (xi_temp s)\<lparr>item := (item (xi_temp s))
                         (i := (item (xi_temp s) i)(column_of c n := xi ! i))\<rparr>"
    by (auto simp: setitem2_nat shp)
  from tf w have tf': "tf = (test_fn s)\<lparr>item := (item (test_fn s))
                         (i := (item (test_fn s) i)(column_of c n :=
                            sum_list (take (2 * n) (test_row (Some (fn ! i)) fn_col err_fn))))\<rparr>"
    by (auto simp: setitem2_nat shp)
  from tx w have tx': "tx = (test_xi s)\<lparr>item := (item (test_xi s))
                         (i := (item (test_xi s) i)(column_of c n :=
                            sum_list (take (2 * n) (test_row (xi ! i) xi_col err_xi))))\<rparr>"
    by (auto simp: setitem2_nat shp)
  show ?thesis
    using i ne lt c2eq
    by (simp add: s' ft' xt' tf' tx' fcol xcol window_count_def)
qed


lemma stab_rows_Inr:
  assumes loop: "for_each (stab_row err_fn err_xi n fn xi) [0..<k] s = Inr s'"
    and sh: "shaped r c s" and n: "n < c" "n \<noteq> 1"
  shows "shaped r c s' \<and> k \<le> r
       \<and> (\<forall>p q. item (fn_temp s') p q =
              (if q = column_of c n \<and> p < k then Some (fn ! p) else item (fn_temp s) p q))
       \<and> (\<forall>p q. item (xi_temp s') p q =
              (if q = column_of c n \<and> p < k then xi ! p else item (xi_temp s) p q))
       \<and> (\<forall>p q. item (test_fn s') p q =
              (if q = column_of c n \<and> p < k
               then window_count (Some (fn ! p))
                      (\<lambda>j. item (fn_temp s) j (compared_column c n)) r (2 * n) err_fn
               else item (test_fn s) p q))
       \<and> (\<forall>p q. item (test_xi s') p q =
              (if q = column_of c n \<and> p < k
               then window_count (xi ! p)
                      (\<lambda>j. item (xi_temp s) j (compared_column c n)) r (2 * n) err_xi
               else item (test_xi s) p q))"
  using loop
proof (induction k arbitrary: s')
  case 0
  with sh show ?case by simp
next
  case (Suc k)
  from Suc.prems obtain mid where
    mid: "for_each (stab_row err_fn err_xi n fn xi) [0..<k] s = Inr mid"
    and row: "stab_row err_fn err_xi n fn xi k mid = Inr s'"
    by (auto simp: for_each_snoc then_do_eq_Inr)
  from Suc.IH [OF mid] have
    shm: "shaped r c mid"
    and fm: "\<forall>p q. item (fn_temp mid) p q =
              (if q = column_of c n \<and> p < k then Some (fn ! p) else item (fn_temp s) p q)"
    and xm: "\<forall>p q. item (xi_temp mid) p q =
              (if q = column_of c n \<and> p < k then xi ! p else item (xi_temp s) p q)"
    and tfm: "\<forall>p q. item (test_fn mid) p q =
              (if q = column_of c n \<and> p < k
               then window_count (Some (fn ! p))
                      (\<lambda>j. item (fn_temp s) j (compared_column c n)) r (2 * n) err_fn
               else item (test_fn s) p q)"
    and txm: "\<forall>p q. item (test_xi mid) p q =
              (if q = column_of c n \<and> p < k
               then window_count (xi ! p)
                      (\<lambda>j. item (xi_temp s) j (compared_column c n)) r (2 * n) err_xi
               else item (test_xi s) p q)"
    by simp_all
  from stab_row_Inr [OF row shm n] have
    k: "k < r" and ne: "compared_column c n \<noteq> column_of c n"
    and f': "fn_temp s' = (fn_temp mid)\<lparr>item := (item (fn_temp mid))
                         (k := (item (fn_temp mid) k)(column_of c n := Some (fn ! k)))\<rparr>"
    and x': "xi_temp s' = (xi_temp mid)\<lparr>item := (item (xi_temp mid))
                         (k := (item (xi_temp mid) k)(column_of c n := xi ! k))\<rparr>"
    and tf': "test_fn s' = (test_fn mid)\<lparr>item := (item (test_fn mid))
                         (k := (item (test_fn mid) k)(column_of c n :=
                            window_count (Some (fn ! k))
                              (\<lambda>q. item (fn_temp mid) q (compared_column c n)) r (2 * n) err_fn))\<rparr>"
    and tx': "test_xi s' = (test_xi mid)\<lparr>item := (item (test_xi mid))
                         (k := (item (test_xi mid) k)(column_of c n :=
                            window_count (xi ! k)
                              (\<lambda>q. item (xi_temp mid) q (compared_column c n)) r (2 * n) err_xi))\<rparr>"
    by simp_all
  have colf: "(\<lambda>q. item (fn_temp mid) q (compared_column c n))
                = (\<lambda>q. item (fn_temp s) q (compared_column c n))"
    using fm ne by auto
  have colx: "(\<lambda>q. item (xi_temp mid) q (compared_column c n))
                = (\<lambda>q. item (xi_temp s) q (compared_column c n))"
    using xm ne by auto
  have sh': "shaped r c s'"
    using shm by (simp add: shaped_def f' x' tf' tx')
  have a: "\<forall>p q. item (fn_temp s') p q =
              (if q = column_of c n \<and> p < Suc k then Some (fn ! p) else item (fn_temp s) p q)"
    using fm by (auto simp: f' less_Suc_eq)
  have b: "\<forall>p q. item (xi_temp s') p q =
              (if q = column_of c n \<and> p < Suc k then xi ! p else item (xi_temp s) p q)"
    using xm by (auto simp: x' less_Suc_eq)
  have d: "\<forall>p q. item (test_fn s') p q =
              (if q = column_of c n \<and> p < Suc k
               then window_count (Some (fn ! p))
                      (\<lambda>j. item (fn_temp s) j (compared_column c n)) r (2 * n) err_fn
               else item (test_fn s) p q)"
    using tfm by (auto simp: tf' colf less_Suc_eq)
  have e: "\<forall>p q. item (test_xi s') p q =
              (if q = column_of c n \<and> p < Suc k
               then window_count (xi ! p)
                      (\<lambda>j. item (xi_temp s) j (compared_column c n)) r (2 * n) err_xi
               else item (test_xi s) p q)"
    using txm by (auto simp: tx' colx less_Suc_eq)
  from sh' k a b d e show ?case by simp
qed

lemma getitem_nat: "getitem xs (int n) = Inr x \<longleftrightarrow> n < length xs \<and> x = xs ! n"
  by (auto simp: getitem_def)

lemma stab_iter_Inr:
  assumes it: "stab_iter sr err_fn err_xi n s = Inr s'"
    and sh: "shaped r c s" and n: "n < c"
  shows "n < length sr \<and> shaped r c s' \<and> length (deduped_fn (sr ! n)) \<le> r
       \<and> (\<forall>p q. item (fn_temp s') p q =
              (if q = column_of c n \<and> p < length (deduped_fn (sr ! n))
               then deduped_fn (sr ! n) ! p else item (fn_temp s) p q))
       \<and> (\<forall>p q. item (xi_temp s') p q =
              (if q = column_of c n \<and> p < length (deduped_fn (sr ! n))
               then deduped_xi (sr ! n) ! p else item (xi_temp s) p q))
       \<and> (\<forall>p q. item (test_fn s') p q =
              (if q = column_of c n \<and> p < length (deduped_fn (sr ! n)) \<and> n \<noteq> 1
               then window_count (deduped_fn (sr ! n) ! p)
                      (\<lambda>j. item (fn_temp s) j (compared_column c n)) r (2 * n) err_fn
               else item (test_fn s) p q))
       \<and> (\<forall>p q. item (test_xi s') p q =
              (if q = column_of c n \<and> p < length (deduped_fn (sr ! n)) \<and> n \<noteq> 1
               then window_count (deduped_xi (sr ! n) ! p)
                      (\<lambda>j. item (xi_temp s) j (compared_column c n)) r (2 * n) err_xi
               else item (test_xi s) p q))"
proof -
  define fn where "fn = map (\<lambda>k. fst (complex_freq_to_freq_and_damp (sr ! n)) ! k) (survivors (sr ! n))"
  define xi where "xi = deduped_xi (sr ! n)"
  have lfn: "length fn = length (deduped_fn (sr ! n))"
    by (simp add: fn_def deduped_fn_def)
  have nth_fn: "\<And>p. p < length fn \<Longrightarrow> Some (fn ! p) = deduped_fn (sr ! n) ! p"
    by (simp add: fn_def deduped_fn_def)
  have msome: "map Some fn = deduped_fn (sr ! n)"
    by (simp add: fn_def deduped_fn_def)
  from it have nlt: "n < length sr"
    unfolding stab_iter_def by (auto simp: then_do_eq_Inr getitem_nat)
  have gi: "getitem sr (int n) = Inr (sr ! n)"
    using nlt by (simp add: getitem_def)
  from it have body:
    "(if n = 1 then
        then_do (set_first_column (fn_temp s) (map Some fn)) (\<lambda>ft.
        then_do (set_first_column (xi_temp s) xi) (\<lambda>xt.
        Inr (s\<lparr>fn_temp := ft, xi_temp := xt\<rparr>)))
      else for_each (stab_row err_fn err_xi n fn xi) [0..<length fn] s) = Inr s'"
    unfolding stab_iter_def gi
    by (cases "n = 1")
       (simp_all add: split_def Let_def redundant_values_poles fn_def xi_def)
  show ?thesis
  proof (cases "n = 1")
    case True
    from sh have shp: "shape0 (fn_temp s) = r" "shape1 (fn_temp s) = c" "shape0 (xi_temp s) = r"
      "shape1 (xi_temp s) = c"
      by (simp_all add: shaped_def)
    from body True have ok: "length fn \<le> r"
      and s': "s' = s\<lparr>fn_temp := (fn_temp s)\<lparr>item :=
                          (\<lambda>i j. if i < length fn \<and> j = 0 then map Some fn ! i
                                   else item (fn_temp s) i j)\<rparr>,
                       xi_temp := (xi_temp s)\<lparr>item :=
                          (\<lambda>i j. if i < length xi \<and> j = 0 then xi ! i
                                   else item (xi_temp s) i j)\<rparr>\<rparr>"
      by (auto simp: set_first_column_def then_do_eq_Inr shp split: if_splits)
    have col: "column_of c n = 0" using True by (simp add: column_of_def)
    have lx: "length xi = length fn" by (simp add: xi_def lfn)
    have "shaped r c s'" using sh by (simp add: s' shaped_def)
    moreover have "\<forall>p q. item (fn_temp s') p q =
              (if q = column_of c n \<and> p < length (deduped_fn (sr ! n))
               then deduped_fn (sr ! n) ! p else item (fn_temp s) p q)"
      by (auto simp: s' col lfn msome)
    moreover have "\<forall>p q. item (xi_temp s') p q =
              (if q = column_of c n \<and> p < length (deduped_fn (sr ! n))
               then deduped_xi (sr ! n) ! p else item (xi_temp s) p q)"
      by (auto simp: s' col lx lfn xi_def)
    ultimately show ?thesis
      using nlt ok True by (simp add: lfn s')
  next
    case False
    with body have loop: "for_each (stab_row err_fn err_xi n fn xi) [0..<length fn] s = Inr s'"
      by simp
    from stab_rows_Inr [OF loop sh n False] show ?thesis
      using nlt False by (simp add: lfn nth_fn xi_def cong: if_cong)
  qed
qed

lemma window_count_0 [simp]: "window_count x col rows 0 err = 0"
  by (simp add: window_count_def)

lemma filled_step:
  assumes inv: "filled sr nmax err_fn err_xi m s"
    and it: "stab_iter sr err_fn err_xi m s = Inr s'"
    and m: "m < nmax"
  shows "filled sr nmax err_fn err_xi (Suc m) s' \<and> m < length sr
       \<and> length (deduped_fn (sr ! m)) \<le> 2 * nmax"
proof -
  from inv have sh: "shaped (2 * nmax) nmax s"
    by (simp add: filled_def)
  from inv have old:
    "\<And>r c. c < nmax \<Longrightarrow>
       item (fn_temp s) r c = (if order_of_column nmax c < m
                               then padded (deduped_fn (sr ! order_of_column nmax c)) r else Some 0)
     \<and> item (xi_temp s) r c = (if order_of_column nmax c < m
                               then padded (deduped_xi (sr ! order_of_column nmax c)) r else Some 0)
     \<and> item (test_fn s) r c =
            (if order_of_column nmax c < m \<and> 2 \<le> order_of_column nmax c
                \<and> r < length (deduped_fn (sr ! order_of_column nmax c))
             then window_count (deduped_fn (sr ! order_of_column nmax c) ! r)
                    (padded (deduped_fn (sr ! (order_of_column nmax c - 1))))
                    (2 * nmax) (2 * order_of_column nmax c) err_fn
             else 0)
     \<and> item (test_xi s) r c =
            (if order_of_column nmax c < m \<and> 2 \<le> order_of_column nmax c
                \<and> r < length (deduped_fn (sr ! order_of_column nmax c))
             then window_count (deduped_xi (sr ! order_of_column nmax c) ! r)
                    (padded (deduped_xi (sr ! (order_of_column nmax c - 1))))
                    (2 * nmax) (2 * order_of_column nmax c) err_xi
             else 0)"
    by (simp add: filled_def Let_def)
  from stab_iter_Inr [OF it sh m] have
    nlt: "m < length sr" and sh': "shaped (2 * nmax) nmax s'"
    and len: "length (deduped_fn (sr ! m)) \<le> 2 * nmax"
    and f': "\<And>p q. item (fn_temp s') p q =
              (if q = column_of nmax m \<and> p < length (deduped_fn (sr ! m))
               then deduped_fn (sr ! m) ! p else item (fn_temp s) p q)"
    and x': "\<And>p q. item (xi_temp s') p q =
              (if q = column_of nmax m \<and> p < length (deduped_fn (sr ! m))
               then deduped_xi (sr ! m) ! p else item (xi_temp s) p q)"
    and tf': "\<And>p q. item (test_fn s') p q =
              (if q = column_of nmax m \<and> p < length (deduped_fn (sr ! m)) \<and> m \<noteq> 1
               then window_count (deduped_fn (sr ! m) ! p)
                      (\<lambda>j. item (fn_temp s) j (compared_column nmax m)) (2 * nmax) (2 * m) err_fn
               else item (test_fn s) p q)"
    and tx': "\<And>p q. item (test_xi s') p q =
              (if q = column_of nmax m \<and> p < length (deduped_fn (sr ! m)) \<and> m \<noteq> 1
               then window_count (deduped_xi (sr ! m) ! p)
                      (\<lambda>j. item (xi_temp s) j (compared_column nmax m)) (2 * nmax) (2 * m) err_xi
               else item (test_xi s) p q)"
    by simp_all
  have own: "order_of_column nmax (column_of nmax m) = m"
    using m by (rule order_of_column_of)
  have c1: "column_of nmax m < nmax"
    using m by (rule column_of_bound)
  have other: "\<And>c. c < nmax \<Longrightarrow> c \<noteq> column_of nmax m \<Longrightarrow> order_of_column nmax c \<noteq> m"
    using order_of_column_inj [OF _ c1] own by metis
  have prevf: "2 \<le> m \<Longrightarrow> (\<lambda>j. item (fn_temp s) j (compared_column nmax m))
                  = padded (deduped_fn (sr ! (m - 1)))" 
  proof -
    assume m2: "2 \<le> m"
    then have cc: "compared_column nmax m = m - 2" by (simp add: compared_column_def)
    have lt: "m - 2 < nmax" using m by simp
    have "order_of_column nmax (m - 2) = m - 1"
      using m m2 by (auto simp: order_of_column_def)
    then show ?thesis
      using old [OF lt] m2 by (auto simp: cc)
  qed
  have prevx: "2 \<le> m \<Longrightarrow> (\<lambda>j. item (xi_temp s) j (compared_column nmax m))
                  = padded (deduped_xi (sr ! (m - 1)))" 
  proof -
    assume m2: "2 \<le> m"
    then have cc: "compared_column nmax m = m - 2" by (simp add: compared_column_def)
    have lt: "m - 2 < nmax" using m by simp
    have "order_of_column nmax (m - 2) = m - 1"
      using m m2 by (auto simp: order_of_column_def)
    then show ?thesis
      using old [OF lt] m2 by (auto simp: cc)
  qed
  have cells: "\<And>r c. c < nmax \<Longrightarrow>
       item (fn_temp s') r c = (if order_of_column nmax c < Suc m
                               then padded (deduped_fn (sr ! order_of_column nmax c)) r else Some 0)
     \<and> item (xi_temp s') r c = (if order_of_column nmax c < Suc m
                               then padded (deduped_xi (sr ! order_of_column nmax c)) r else Some 0)
     \<and> item (test_fn s') r c =
            (if order_of_column nmax c < Suc m \<and> 2 \<le> order_of_column nmax c
                \<and> r < length (deduped_fn (sr ! order_of_column nmax c))
             then window_count (deduped_fn (sr ! order_of_column nmax c) ! r)
                    (padded (deduped_fn (sr ! (order_of_column nmax c - 1))))
                    (2 * nmax) (2 * order_of_column nmax c) err_fn
             else 0)
     \<and> item (test_xi s') r c =
            (if order_of_column nmax c < Suc m \<and> 2 \<le> order_of_column nmax c
                \<and> r < length (deduped_fn (sr ! order_of_column nmax c))
             then window_count (deduped_xi (sr ! order_of_column nmax c) ! r)
                    (padded (deduped_xi (sr ! (order_of_column nmax c - 1))))
                    (2 * nmax) (2 * order_of_column nmax c) err_xi
             else 0)"
  proof -
    fix r c assume c: "c < nmax"
    show "item (fn_temp s') r c = (if order_of_column nmax c < Suc m
                               then padded (deduped_fn (sr ! order_of_column nmax c)) r else Some 0)
     \<and> item (xi_temp s') r c = (if order_of_column nmax c < Suc m
                               then padded (deduped_xi (sr ! order_of_column nmax c)) r else Some 0)
     \<and> item (test_fn s') r c =
            (if order_of_column nmax c < Suc m \<and> 2 \<le> order_of_column nmax c
                \<and> r < length (deduped_fn (sr ! order_of_column nmax c))
             then window_count (deduped_fn (sr ! order_of_column nmax c) ! r)
                    (padded (deduped_fn (sr ! (order_of_column nmax c - 1))))
                    (2 * nmax) (2 * order_of_column nmax c) err_fn
             else 0)
     \<and> item (test_xi s') r c =
            (if order_of_column nmax c < Suc m \<and> 2 \<le> order_of_column nmax c
                \<and> r < length (deduped_fn (sr ! order_of_column nmax c))
             then window_count (deduped_xi (sr ! order_of_column nmax c) ! r)
                    (padded (deduped_xi (sr ! (order_of_column nmax c - 1))))
                    (2 * nmax) (2 * order_of_column nmax c) err_xi
             else 0)"
    proof (cases "c = column_of nmax m")
      case True
      have o: "order_of_column nmax c = m" using True own by simp
      have F: "item (fn_temp s') r c =
                 (if r < length (deduped_fn (sr ! m)) then deduped_fn (sr ! m) ! r
                  else item (fn_temp s) r c)"
        using f' [of r c] True by simp
      have X: "item (xi_temp s') r c =
                 (if r < length (deduped_fn (sr ! m)) then deduped_xi (sr ! m) ! r
                  else item (xi_temp s) r c)"
        using x' [of r c] True by simp
      have TF: "item (test_fn s') r c =
              (if r < length (deduped_fn (sr ! m)) \<and> m \<noteq> 1
               then window_count (deduped_fn (sr ! m) ! r)
                      (\<lambda>j. item (fn_temp s) j (compared_column nmax m)) (2 * nmax) (2 * m) err_fn
               else item (test_fn s) r c)"
        using tf' [of r c] True by simp
      have TX: "item (test_xi s') r c =
              (if r < length (deduped_fn (sr ! m)) \<and> m \<noteq> 1
               then window_count (deduped_xi (sr ! m) ! r)
                      (\<lambda>j. item (xi_temp s) j (compared_column nmax m)) (2 * nmax) (2 * m) err_xi
               else item (test_xi s) r c)"
        using tx' [of r c] True by simp
      consider "m = 0" | "m = 1" | "2 \<le> m" by linarith
      then show ?thesis
      proof cases
        case 1
        then show ?thesis
          using old [OF c, of r] by (simp add: F X TF TX o padded_def)
      next
        case 2
        then show ?thesis
          using old [OF c, of r] by (simp add: F X TF TX o padded_def)
      next
        case 3
        then show ?thesis
          using old [OF c, of r] prevf prevx
          by (simp add: F X TF TX o padded_def)
      qed
    next
      case False
      from other [OF c False] have ne: "order_of_column nmax c \<noteq> m" .
      then have lt: "order_of_column nmax c < Suc m \<longleftrightarrow> order_of_column nmax c < m"
        by auto
      show ?thesis
        using old [OF c, of r] False by (simp add: f' x' tf' tx' lt)
    qed
  qed
  have "filled sr nmax err_fn err_xi (Suc m) s'"
    unfolding filled_def Let_def using sh' cells by blast
  with nlt len show ?thesis by simp
qed

lemma filled_initial:
  "filled sr nmax err_fn err_xi 0
     \<lparr>fn_temp = zeros2 (2 * nmax) nmax (Some 0), xi_temp = zeros2 (2 * nmax) nmax (Some 0),
      test_fn = zeros2 (2 * nmax) nmax 0, test_xi = zeros2 (2 * nmax) nmax 0\<rparr>"
  by (simp add: filled_def shaped_def zeros2_def)

lemma stab_loop_filled:
  assumes "for_each (stab_iter sr err_fn err_xi) [0..<m] s0 = Inr s"
    and "filled sr nmax err_fn err_xi 0 s0" and "m \<le> nmax"
  shows "filled sr nmax err_fn err_xi m s \<and> m \<le> length sr
       \<and> (\<forall>n<m. length (deduped_fn (sr ! n)) \<le> 2 * nmax)"
  using assms(1,3)
proof (induction m arbitrary: s)
  case 0
  with assms(2) show ?case by simp
next
  case (Suc m)
  from Suc.prems(1) obtain mid where
    mid: "for_each (stab_iter sr err_fn err_xi) [0..<m] s0 = Inr mid"
    and it: "stab_iter sr err_fn err_xi m mid = Inr s"
    by (auto simp: for_each_snoc then_do_eq_Inr)
  from Suc.prems(2) have m: "m < nmax" "m \<le> nmax" by simp_all
  from Suc.IH [OF mid m(2)] have
    inv: "filled sr nmax err_fn err_xi m mid"
    and lens: "\<forall>n<m. length (deduped_fn (sr ! n)) \<le> 2 * nmax"
    by simp_all
  from filled_step [OF inv it m(1)] lens show ?case
    by (auto simp: less_Suc_eq)
qed

lemma stabilisation_filled:
  assumes "stabilisation sr nmax err_fn err_xi = Inr (ft, xt, tf, tx)"
  shows "filled sr nmax err_fn err_xi nmax \<lparr>fn_temp = ft, xi_temp = xt, test_fn = tf, test_xi = tx\<rparr>
       \<and> nmax \<le> length sr \<and> (\<forall>n<nmax. length (deduped_fn (sr ! n)) \<le> 2 * nmax)"
proof -
  from assms obtain s where
    loop: "for_each (stab_iter sr err_fn err_xi) [0..<nmax]
             \<lparr>fn_temp = zeros2 (2 * nmax) nmax (Some 0), xi_temp = zeros2 (2 * nmax) nmax (Some 0),
              test_fn = zeros2 (2 * nmax) nmax 0, test_xi = zeros2 (2 * nmax) nmax 0\<rparr> = Inr s"
    and s: "ft = fn_temp s" "xt = xi_temp s" "tf = test_fn s" "tx = test_xi s"
    unfolding stabilisation_def by (auto simp: then_do_eq_Inr)
  have "\<lparr>fn_temp = ft, xi_temp = xt, test_fn = tf, test_xi = tx\<rparr> = s"
    by (simp add: s)
  with stab_loop_filled [OF loop filled_initial order_refl] show ?thesis by simp
qed

lemma py_index_compared_ok:
  assumes "n < c" and "2 \<le> n \<or> (n = 0 \<and> 2 \<le> c)"
  shows "py_index (int n - 2) c = Inr (compared_column c n)"
  using assms by (auto simp: py_index_def compared_column_def nat_diff_distrib)

lemma stab_row_returns:
  assumes sh: "shaped r c s" and i: "i < r" and n: "n < c" "2 \<le> n \<or> (n = 0 \<and> 2 \<le> c)"
  shows "\<exists>s'. stab_row err_fn err_xi n fn xi i s = Inr s'"
proof -
  from sh have shp: "shape0 (fn_temp s) = r" "shape1 (fn_temp s) = c" "shape0 (xi_temp s) = r"
    "shape1 (xi_temp s) = c" "shape0 (test_fn s) = r" "shape1 (test_fn s) = c"
    "shape0 (test_xi s) = r" "shape1 (test_xi s) = c"
    by (simp_all add: shaped_def)
  show ?thesis
    unfolding stab_row_def Let_def getcol_def setitem2_def
    using i by (simp add: shp py_index_compared_ok [OF n] py_index_written [OF n(1)])
qed

lemma stab_rows_returns:
  assumes sh: "shaped r c s" and n: "n < c" "2 \<le> n \<or> (n = 0 \<and> 2 \<le> c)"
  shows "k \<le> r \<Longrightarrow> \<exists>s'. for_each (stab_row err_fn err_xi n fn xi) [0..<k] s = Inr s'"
proof (induction k)
  case 0
  then show ?case by simp
next
  case (Suc k)
  then obtain mid where mid: "for_each (stab_row err_fn err_xi n fn xi) [0..<k] s = Inr mid"
    by auto
  have n1: "n \<noteq> 1" using n by auto
  from stab_rows_Inr [OF mid sh n(1) n1] have shm: "shaped r c mid" by simp
  from Suc.prems have "k < r" by simp
  from stab_row_returns [OF shm this n] obtain s' where
    "stab_row err_fn err_xi n fn xi k mid = Inr s'" by blast
  with mid show ?case by (simp add: for_each_snoc)
qed

lemma stab_iter_returns:
  assumes sh: "shaped r c s" and n: "n < c" "n < length sr"
    and len: "length (deduped_fn (sr ! n)) \<le> r"
    and one: "c = 1 \<longrightarrow> deduped_fn (sr ! n) = []"
  shows "\<exists>s'. stab_iter sr err_fn err_xi n s = Inr s'"
proof -
  define fn where "fn = map (\<lambda>k. fst (complex_freq_to_freq_and_damp (sr ! n)) ! k) (survivors (sr ! n))"
  have lfn: "length fn = length (deduped_fn (sr ! n))"
    by (simp add: fn_def deduped_fn_def)
  have gi: "getitem sr (int n) = Inr (sr ! n)"
    using n by (simp add: getitem_def)
  from sh have shp: "shape0 (fn_temp s) = r" "shape1 (fn_temp s) = c" "shape0 (xi_temp s) = r"
    "shape1 (xi_temp s) = c"
    by (simp_all add: shaped_def)
  show ?thesis
  proof (cases "n = 1")
    case True
    with n have "2 \<le> c" by simp
    with True len show ?thesis
      unfolding stab_iter_def gi
      by (simp add: split_def Let_def redundant_values_poles set_first_column_def shp
            deduped_fn_def deduped_xi_def)
  next
    case False
    show ?thesis
    proof (cases "2 \<le> n \<or> (n = 0 \<and> 2 \<le> c)")
      case True
      from stab_rows_returns [OF sh n(1) True, of "length fn" err_fn err_xi fn "deduped_xi (sr ! n)"]
        len lfn
      obtain s' where
        "for_each (stab_row err_fn err_xi n fn (deduped_xi (sr ! n))) [0..<length fn] s = Inr s'"
        by auto
      with False show ?thesis
        unfolding stab_iter_def gi
        by (simp add: split_def Let_def redundant_values_poles fn_def)
    next
      case no: False
      with False n have "c = 1" "n = 0" by auto
      with one have "length fn = 0" by (simp add: lfn)
      with False show ?thesis
        unfolding stab_iter_def gi
        by (simp add: split_def Let_def redundant_values_poles fn_def)
    qed
  qed
qed

lemma filled_shaped: "filled sr nmax err_fn err_xi m s \<Longrightarrow> shaped (2 * nmax) nmax s"
  by (simp add: filled_def)

lemma stab_loop_returns:
  assumes sr: "nmax \<le> length sr"
    and len: "\<forall>n<nmax. length (deduped_fn (sr ! n)) \<le> 2 * nmax"
    and one: "nmax = 1 \<longrightarrow> deduped_fn (sr ! 0) = []"
    and s0: "filled sr nmax err_fn err_xi 0 s0"
  shows "m \<le> nmax \<Longrightarrow> \<exists>s. for_each (stab_iter sr err_fn err_xi) [0..<m] s0 = Inr s"
proof (induction m)
  case 0
  then show ?case by simp
next
  case (Suc m)
  then obtain mid where mid: "for_each (stab_iter sr err_fn err_xi) [0..<m] s0 = Inr mid"
    by auto
  from Suc.prems have m: "m < nmax" "m \<le> nmax" by simp_all
  from stab_loop_filled [OF mid s0 m(2)] have "shaped (2 * nmax) nmax mid"
    by (auto dest: filled_shaped)
  moreover have "m < length sr" using m sr by simp
  moreover have "length (deduped_fn (sr ! m)) \<le> 2 * nmax" using len m by simp
  moreover have "nmax = 1 \<longrightarrow> deduped_fn (sr ! m) = []" using one m by auto
  ultimately obtain s where "stab_iter sr err_fn err_xi m mid = Inr s"
    using stab_iter_returns [of "2 * nmax" nmax mid m sr err_fn err_xi] m by blast
  with mid show ?case by (simp add: for_each_snoc)
qed

lemma stabilisation_returns:
  assumes "nmax \<le> length sr"
    and "\<forall>n<nmax. length (deduped_fn (sr ! n)) \<le> 2 * nmax"
    and "nmax = 1 \<longrightarrow> deduped_fn (sr ! 0) = []"
  shows "\<exists>ft xt tf tx. stabilisation sr nmax err_fn err_xi = Inr (ft, xt, tf, tx)"
proof -
  from stab_loop_returns [OF assms filled_initial order_refl]
  obtain s where "for_each (stab_iter sr err_fn err_xi) [0..<nmax]
             \<lparr>fn_temp = zeros2 (2 * nmax) nmax (Some 0), xi_temp = zeros2 (2 * nmax) nmax (Some 0),
              test_fn = zeros2 (2 * nmax) nmax 0, test_xi = zeros2 (2 * nmax) nmax 0\<rparr> = Inr s"
    by blast
  then show ?thesis by (simp add: stabilisation_def)
qed

lemma sum_list_indicator_length:
  "sum_list (map (\<lambda>i. if P i then 1 else 0) xs) = int (length (filter P xs))"
  by (induction xs) simp_all

lemma window_count_filter:
  "window_count x col rows w err
     = int (length (filter (\<lambda>q. matches x (col q) err) [0..<min w rows]))"
proof -
  have "take w [0..<rows] = [0..<min w rows]"
    by (cases "w \<le> rows") (simp_all add: min_def)
  then have "take w (test_row x (map col [0..<rows]) err)
          = map (\<lambda>q. if matches x (col q) err then 1 else 0) [0..<min w rows]"
    by (simp add: test_row_def take_map)
  then show ?thesis
    by (simp add: window_count_def sum_list_indicator_length)
qed

lemma length_deduped_le: "length (deduped_fn ps) \<le> length ps"
  by (simp add: deduped_fn_def survivors_def) (metis diff_zero length_filter_le length_upt)

lemma stabilisation_column:
  assumes res: "stabilisation sr nmax err_fn err_xi = Inr (ft, xt, tf, tx)" and n: "n < nmax"
  shows "item ft r (column_of nmax n) = padded (deduped_fn (sr ! n)) r"
    and "item xt r (column_of nmax n) = padded (deduped_xi (sr ! n)) r"
    and "item tf r (column_of nmax n) =
           (if 2 \<le> n \<and> r < length (deduped_fn (sr ! n))
            then window_count (deduped_fn (sr ! n) ! r) (padded (deduped_fn (sr ! (n - 1))))
                   (2 * nmax) (2 * n) err_fn
            else 0)"
    and "item tx r (column_of nmax n) =
           (if 2 \<le> n \<and> r < length (deduped_fn (sr ! n))
            then window_count (deduped_xi (sr ! n) ! r) (padded (deduped_xi (sr ! (n - 1))))
                   (2 * nmax) (2 * n) err_xi
            else 0)"
proof -
  from stabilisation_filled [OF res]
  have f: "filled sr nmax err_fn err_xi nmax
             \<lparr>fn_temp = ft, xi_temp = xt, test_fn = tf, test_xi = tx\<rparr>"
    by simp
  have c: "column_of nmax n < nmax" using n by (rule column_of_bound)
  have o: "order_of_column nmax (column_of nmax n) = n" using n by (rule order_of_column_of)
  from f c o n show "item ft r (column_of nmax n) = padded (deduped_fn (sr ! n)) r"
    and "item xt r (column_of nmax n) = padded (deduped_xi (sr ! n)) r"
    and "item tf r (column_of nmax n) =
           (if 2 \<le> n \<and> r < length (deduped_fn (sr ! n))
            then window_count (deduped_fn (sr ! n) ! r) (padded (deduped_fn (sr ! (n - 1))))
                   (2 * nmax) (2 * n) err_fn
            else 0)"
    and "item tx r (column_of nmax n) =
           (if 2 \<le> n \<and> r < length (deduped_fn (sr ! n))
            then window_count (deduped_xi (sr ! n) ! r) (padded (deduped_xi (sr ! (n - 1))))
                   (2 * nmax) (2 * n) err_xi
            else 0)"
    by (simp_all add: filled_def Let_def)
qed

lemma stabilisation_shapes:
  assumes "stabilisation sr nmax err_fn err_xi = Inr (ft, xt, tf, tx)"
  shows "shape0 ft = 2 * nmax \<and> shape1 ft = nmax \<and> shape0 xt = 2 * nmax \<and> shape1 xt = nmax
       \<and> shape0 tf = 2 * nmax \<and> shape1 tf = nmax \<and> shape0 tx = 2 * nmax \<and> shape1 tx = nmax"
  using stabilisation_filled [OF assms] by (simp add: filled_def shaped_def)

lemma redundant_values_deduped:
  "\<exists>fn xi. redundant_values (fst (complex_freq_to_freq_and_damp ps))
              (snd (complex_freq_to_freq_and_damp ps)) (1 / 1000) = Inr (fn, xi)
     \<and> length xi = length fn \<and> map Some fn = deduped_fn ps \<and> xi = deduped_xi ps"
  by (simp add: redundant_values_poles deduped_fn_def deduped_xi_def)

lemma padded_map_Some:
  "map Some fn = xs \<Longrightarrow> padded xs r = (if r < length fn then Some (fn ! r) else Some 0)"
  by (auto simp: padded_def)

lemma padded_deduped:
  assumes "map Some fn = deduped_fn ps" and "xi = deduped_xi ps"
  shows "padded (deduped_fn ps) r = (if r < length fn then Some (fn ! r) else Some 0)"
    and "padded (deduped_xi ps) r = (if r < length fn then xi ! r else Some 0)"
proof -
  have l: "length (deduped_fn ps) = length fn"
    using assms(1) by (metis length_map)
  show "padded (deduped_fn ps) r = (if r < length fn then Some (fn ! r) else Some 0)"
    using assms(1) by (rule padded_map_Some)
  show "padded (deduped_xi ps) r = (if r < length fn then xi ! r else Some 0)"
    using l by (simp add: padded_def assms(2))
qed

text \<open>
  Claim C9. Whenever \<^verbatim>\<open>stabilisation\<close> returns, for \<open>nmax > 0\<close>, the last column
  (index \<open>nmax - 1\<close>) of the frequency and damping matrices holds the surviving
  values of the lowest order \<^verbatim>\<open>sr[0]\<close>, written by the iteration \<open>n = 0\<close> through the
  index \<open>n - 1 = -1\<close>, with zeros below, and the last column of both test matrices
  is zero. The data of the highest order \<^verbatim>\<open>sr[nmax - 1]\<close> are in the column before
  it.
\<close>

theorem stabilisation_last_column:
  assumes res: "stabilisation sr nmax err_fn err_xi = Inr (ft, xt, tf, tx)" and pos: "0 < nmax"
  shows "\<exists>fn xi.
           redundant_values (fst (complex_freq_to_freq_and_damp (sr ! 0)))
             (snd (complex_freq_to_freq_and_damp (sr ! 0))) (1 / 1000) = Inr (fn, xi)
         \<and> length xi = length fn \<and> length fn \<le> 2 * nmax
         \<and> shape0 ft = 2 * nmax \<and> shape1 ft = nmax \<and> shape1 xt = nmax
         \<and> shape1 tf = nmax \<and> shape1 tx = nmax
         \<and> (\<forall>r. item ft r (nmax - 1) = (if r < length fn then Some (fn ! r) else Some 0)
                \<and> item xt r (nmax - 1) = (if r < length fn then xi ! r else Some 0)
                \<and> item tf r (nmax - 1) = 0 \<and> item tx r (nmax - 1) = 0)
         \<and> (2 \<le> nmax \<longrightarrow>
              (\<exists>fn_high xi_high.
                  redundant_values (fst (complex_freq_to_freq_and_damp (sr ! (nmax - 1))))
                    (snd (complex_freq_to_freq_and_damp (sr ! (nmax - 1)))) (1 / 1000)
                    = Inr (fn_high, xi_high)
                \<and> (\<forall>r. item ft r (nmax - 2)
                          = (if r < length fn_high then Some (fn_high ! r) else Some 0)
                       \<and> item xt r (nmax - 2)
                          = (if r < length fn_high then xi_high ! r else Some 0))))"
proof -
  from redundant_values_deduped [of "sr ! 0"] obtain fn xi where
    rv: "redundant_values (fst (complex_freq_to_freq_and_damp (sr ! 0)))
             (snd (complex_freq_to_freq_and_damp (sr ! 0))) (1 / 1000) = Inr (fn, xi)"
    and lx: "length xi = length fn" and f: "map Some fn = deduped_fn (sr ! 0)"
    and x: "xi = deduped_xi (sr ! 0)"
    by blast
  have lf: "length (deduped_fn (sr ! 0)) = length fn" using f by (metis length_map)
  have c0: "column_of nmax 0 = nmax - 1" by (simp add: column_of_def)
  from stabilisation_filled [OF res] pos have len: "length fn \<le> 2 * nmax"
    using lf by auto
  have cells: "\<forall>r. item ft r (nmax - 1) = (if r < length fn then Some (fn ! r) else Some 0)
                \<and> item xt r (nmax - 1) = (if r < length fn then xi ! r else Some 0)
                \<and> item tf r (nmax - 1) = 0 \<and> item tx r (nmax - 1) = 0"
    using stabilisation_column [OF res pos, unfolded c0]
    by (simp add: padded_deduped [OF f x])
  have high: "2 \<le> nmax \<longrightarrow>
              (\<exists>fn_high xi_high.
                  redundant_values (fst (complex_freq_to_freq_and_damp (sr ! (nmax - 1))))
                    (snd (complex_freq_to_freq_and_damp (sr ! (nmax - 1)))) (1 / 1000)
                    = Inr (fn_high, xi_high)
                \<and> (\<forall>r. item ft r (nmax - 2)
                          = (if r < length fn_high then Some (fn_high ! r) else Some 0)
                       \<and> item xt r (nmax - 2)
                          = (if r < length fn_high then xi_high ! r else Some 0)))"
  proof
    assume n2: "2 \<le> nmax"
    define h where "h = nmax - 1"
    from redundant_values_deduped [of "sr ! h"] obtain fh xh where
      rvh: "redundant_values (fst (complex_freq_to_freq_and_damp (sr ! h)))
             (snd (complex_freq_to_freq_and_damp (sr ! h))) (1 / 1000) = Inr (fh, xh)"
      and fh: "map Some fh = deduped_fn (sr ! h)"
      and xh: "xh = deduped_xi (sr ! h)"
      by blast
    have lt: "h < nmax" using n2 by (simp add: h_def)
    have ch: "column_of nmax h = nmax - 2"
      using n2 by (auto simp: column_of_def h_def)
    have "\<forall>r. item ft r (nmax - 2) = (if r < length fh then Some (fh ! r) else Some 0)
             \<and> item xt r (nmax - 2) = (if r < length fh then xh ! r else Some 0)"
      using stabilisation_column(1,2) [OF res lt, unfolded ch]
      by (simp add: padded_deduped [OF fh xh])
    with rvh show "\<exists>fn_high xi_high.
                  redundant_values (fst (complex_freq_to_freq_and_damp (sr ! (nmax - 1))))
                    (snd (complex_freq_to_freq_and_damp (sr ! (nmax - 1)))) (1 / 1000)
                    = Inr (fn_high, xi_high)
                \<and> (\<forall>r. item ft r (nmax - 2)
                          = (if r < length fn_high then Some (fn_high ! r) else Some 0)
                       \<and> item xt r (nmax - 2)
                          = (if r < length fn_high then xi_high ! r else Some 0))"
      unfolding h_def by blast
  qed
  from rv lx len stabilisation_shapes [OF res] cells high show ?thesis by blast
qed

lemma freq_and_damp_undamped:
  assumes "0 < f"
  shows "freq_and_damp (undamped_pole f) = (f, Some 0)"
proof -
  have pos: "0 < 2 * pi * f" using assms by simp
  have "cmod (Complex 0 (2 * pi * f)) = \<bar>2 * pi * f\<bar>"
    by (simp add: cmod_def)
  then have "sgn (2 * pi * f) * cmod (Complex 0 (2 * pi * f)) = 2 * pi * f"
    using pos by (simp add: sgn_if)
  then show ?thesis
    using pos assms by (simp add: freq_and_damp_def undamped_pole_def np_div_def Let_def)
qed

lemma survivors_far_apart:
  assumes "\<forall>i j. j < i \<and> i < length ps \<longrightarrow>
             \<not> \<bar>fst (complex_freq_to_freq_and_damp ps) ! i
                  - fst (complex_freq_to_freq_and_damp ps) ! j\<bar> < 1 / 1000"
  shows "deduped_fn ps = map Some (fst (complex_freq_to_freq_and_damp ps))"
    and "deduped_xi ps = snd (complex_freq_to_freq_and_damp ps)"
proof -
  have all: "survivors ps = [0..<length ps]"
    unfolding survivors_def
    by (rule filter_True) (use assms in \<open>auto simp: later_close_def\<close>)
  show "deduped_fn ps = map Some (fst (complex_freq_to_freq_and_damp ps))"
    unfolding deduped_fn_def all
    by (rule nth_equalityI) simp_all
  show "deduped_xi ps = snd (complex_freq_to_freq_and_damp ps)"
    unfolding deduped_xi_def all
    by (rule nth_equalityI) simp_all
qed

lemma deduped_example_1:
  "deduped_fn [undamped_pole 1] = [Some 1]" "deduped_xi [undamped_pole 1] = [Some 0]"
  using survivors_far_apart [of "[undamped_pole 1]"]
  by (simp_all add: complex_freq_to_freq_and_damp_def freq_and_damp_undamped)

lemma deduped_example_23:
  "deduped_fn [undamped_pole 2, undamped_pole 3] = [Some 2, Some 3]"
  "deduped_xi [undamped_pole 2, undamped_pole 3] = [Some 0, Some 0]"
  using survivors_far_apart [of "[undamped_pole 2, undamped_pole 3]"]
  by (simp_all add: complex_freq_to_freq_and_damp_def freq_and_damp_undamped nth_Cons'
        less_Suc_eq)

theorem stabilisation_last_column_witness:
  "\<exists>ft xt tf tx.
      stabilisation [[undamped_pole 1], [undamped_pole 2, undamped_pole 3]] 2 (1 / 1000) (1 / 20)
        = Inr (ft, xt, tf, tx)
    \<and> item ft 0 1 = Some 1 \<and> item ft 1 1 = Some 0 \<and> item xt 0 1 = Some 0
    \<and> item tf 0 1 = 0 \<and> item tx 0 1 = 0
    \<and> item ft 0 0 = Some 2 \<and> item ft 1 0 = Some 3"
proof -
  let ?sr = "[[undamped_pole 1], [undamped_pole 2, undamped_pole 3]]"
  have "\<forall>n<2. length (deduped_fn (?sr ! n)) \<le> 2 * 2"
    by (simp add: less_Suc_eq numeral_2_eq_2 deduped_example_1 deduped_example_23)
  moreover have "2 \<le> length ?sr" by simp
  moreover have "(2 :: nat) = 1 \<longrightarrow> deduped_fn (?sr ! 0) = []" by simp
  ultimately have "\<exists>ft xt tf tx. stabilisation ?sr 2 (1 / 1000) (1 / 20) = Inr (ft, xt, tf, tx)"
    by (intro stabilisation_returns)
  then obtain ft xt tf tx where
    res: "stabilisation ?sr 2 (1 / 1000) (1 / 20) = Inr (ft, xt, tf, tx)"
    by blast
  from stabilisation_last_column [OF res] obtain fn xi fn_high xi_high where
    rv: "redundant_values (fst (complex_freq_to_freq_and_damp (?sr ! 0)))
             (snd (complex_freq_to_freq_and_damp (?sr ! 0))) (1 / 1000) = Inr (fn, xi)"
    and cells: "\<forall>r. item ft r (2 - 1) = (if r < length fn then Some (fn ! r) else Some 0)
                \<and> item xt r (2 - 1) = (if r < length fn then xi ! r else Some 0)
                \<and> item tf r (2 - 1) = 0 \<and> item tx r (2 - 1) = 0"
    and rvh: "redundant_values (fst (complex_freq_to_freq_and_damp (?sr ! (2 - 1))))
                    (snd (complex_freq_to_freq_and_damp (?sr ! (2 - 1)))) (1 / 1000)
                    = Inr (fn_high, xi_high)"
    and high: "\<forall>r. item ft r (2 - 2)
                          = (if r < length fn_high then Some (fn_high ! r) else Some 0)
                       \<and> item xt r (2 - 2)
                          = (if r < length fn_high then xi_high ! r else Some 0)"
    by auto
  from rv redundant_values_deduped [of "?sr ! 0"] have fn: "fn = [1]" and xi: "xi = [Some 0]"
    by (auto simp: deduped_example_1 map_eq_Cons_conv)
  from rvh redundant_values_deduped [of "?sr ! (2 - 1)"] have fh: "fn_high = [2, 3]"
    by (auto simp: deduped_example_23 map_eq_Cons_conv)
  from cells have c: "item ft 0 1 = Some 1" "item ft 1 1 = Some 0" "item xt 0 1 = Some 0"
    "item tf 0 1 = 0" "item tx 0 1 = 0"
    by (simp_all add: fn xi)
  from high have h: "item ft 0 0 = Some 2" "item ft 1 0 = Some 3"
    by (simp_all add: fh)
  from res c h show ?thesis by blast
qed

lemma matches_zero [simp]: "\<not> matches x (Some 0) err"
  by (cases x) (simp_all add: matches_def rel_dev_def abs_lt_def np_div_def)

lemma length_filter_pos_iff:
  "0 < int (length (filter P [0..<w])) \<longleftrightarrow> (\<exists>q<w. P q)"
  by (auto simp: filter_empty_conv)

lemma length_filter_zero_iff:
  "int (length (filter P [0..<w])) = 0 \<longleftrightarrow> (\<forall>q<w. \<not> P q)"
  by (auto simp: filter_empty_conv)

lemma stabilisation_compared:
  assumes res: "stabilisation sr nmax err_fn err_xi = Inr (ft, xt, tf, tx)"
    and m: "1 \<le> m" "Suc m < nmax"
  shows "item ft r (m - 1) = padded (deduped_fn (sr ! m)) r"
    and "item xt r (m - 1) = padded (deduped_xi (sr ! m)) r"
    and "item ft r m = padded (deduped_fn (sr ! Suc m)) r"
    and "item xt r m = padded (deduped_xi (sr ! Suc m)) r"
    and "item tf r m =
           (if r < length (deduped_fn (sr ! Suc m))
            then window_count (deduped_fn (sr ! Suc m) ! r) (padded (deduped_fn (sr ! m)))
                   (2 * nmax) (2 * Suc m) err_fn
            else 0)"
    and "item tx r m =
           (if r < length (deduped_fn (sr ! Suc m))
            then window_count (deduped_xi (sr ! Suc m) ! r) (padded (deduped_xi (sr ! m)))
                   (2 * nmax) (2 * Suc m) err_xi
            else 0)"
proof -
  have lt: "m < nmax" using m by simp
  have c1: "column_of nmax m = m - 1" using m by (simp add: column_of_def)
  have c2: "column_of nmax (Suc m) = m" by (simp add: column_of_def)
  show "item ft r (m - 1) = padded (deduped_fn (sr ! m)) r"
    using stabilisation_column(1) [OF res lt] by (simp add: c1)
  show "item xt r (m - 1) = padded (deduped_xi (sr ! m)) r"
    using stabilisation_column(2) [OF res lt] by (simp add: c1)
  show "item ft r m = padded (deduped_fn (sr ! Suc m)) r"
    using stabilisation_column(1) [OF res m(2)] by (simp add: c2)
  show "item xt r m = padded (deduped_xi (sr ! Suc m)) r"
    using stabilisation_column(2) [OF res m(2)] by (simp add: c2)
  show "item tf r m =
           (if r < length (deduped_fn (sr ! Suc m))
            then window_count (deduped_fn (sr ! Suc m) ! r) (padded (deduped_fn (sr ! m)))
                   (2 * nmax) (2 * Suc m) err_fn
            else 0)"
    using stabilisation_column(3) [OF res m(2), of r] m by (simp add: c2)
  show "item tx r m =
           (if r < length (deduped_fn (sr ! Suc m))
            then window_count (deduped_xi (sr ! Suc m) ! r) (padded (deduped_xi (sr ! m)))
                   (2 * nmax) (2 * Suc m) err_xi
            else 0)"
    using stabilisation_column(4) [OF res m(2), of r] m by (simp add: c2)
qed

lemma stabilisation_counts:
  assumes res: "stabilisation sr nmax err_fn err_xi = Inr (ft, xt, tf, tx)"
    and m: "1 \<le> m" "Suc m < nmax"
    and r: "r < length (deduped_fn (sr ! Suc m))"
  shows "item tf r m = int (length (filter (\<lambda>q. matches (item ft r m) (item ft q (m - 1)) err_fn)
                                      [0..<2 * Suc m]))"
    and "item tx r m = int (length (filter (\<lambda>q. matches (item xt r m) (item xt q (m - 1)) err_xi)
                                      [0..<2 * Suc m]))"
proof -
  have w: "min (2 * Suc m) (2 * nmax) = 2 * Suc m" using m by simp
  have fr: "item ft r m = deduped_fn (sr ! Suc m) ! r"
    using stabilisation_compared(3) [OF res m] r by (simp add: padded_def)
  have xr: "item xt r m = deduped_xi (sr ! Suc m) ! r"
    using stabilisation_compared(4) [OF res m] r by (simp add: padded_def)
  have fcol: "(\<lambda>q. item ft q (m - 1)) = padded (deduped_fn (sr ! m))"
    using stabilisation_compared(1) [OF res m] by auto
  have xcol: "(\<lambda>q. item xt q (m - 1)) = padded (deduped_xi (sr ! m))"
    using stabilisation_compared(2) [OF res m] by auto
  have "item tf r m = window_count (item ft r m) (\<lambda>q. item ft q (m - 1)) (2 * nmax) (2 * Suc m) err_fn"
    using stabilisation_compared(5) [OF res m, of r] r by (simp only: fr fcol if_True)
  then show "item tf r m = int (length (filter (\<lambda>q. matches (item ft r m) (item ft q (m - 1)) err_fn)
                                      [0..<2 * Suc m]))"
    by (simp only: window_count_filter w)
  have "item tx r m = window_count (item xt r m) (\<lambda>q. item xt q (m - 1)) (2 * nmax) (2 * Suc m) err_xi"
    using stabilisation_compared(6) [OF res m, of r] r by (simp only: xr xcol if_True)
  then show "item tx r m = int (length (filter (\<lambda>q. matches (item xt r m) (item xt q (m - 1)) err_xi)
                                      [0..<2 * Suc m]))"
    by (simp only: window_count_filter w)
qed

lemma stabilisation_outside_window:
  assumes res: "stabilisation sr nmax err_fn err_xi = Inr (ft, xt, tf, tx)"
    and m: "1 \<le> m" "Suc m < nmax"
    and short: "length (sr ! m) \<le> 2 * Suc m" and q: "2 * Suc m \<le> q"
  shows "\<not> matches x (item ft q (m - 1)) err_fn" and "\<not> matches y (item xt q (m - 1)) err_xi"
proof -
  have "length (deduped_fn (sr ! m)) \<le> q"
    using length_deduped_le [of "sr ! m"] short q by linarith
  then have "item ft q (m - 1) = Some 0" "item xt q (m - 1) = Some 0"
    using stabilisation_compared(1,2) [OF res m, of q] by (simp_all add: padded_def)
  then show "\<not> matches x (item ft q (m - 1)) err_fn" and "\<not> matches y (item xt q (m - 1)) err_xi"
    by simp_all
qed

text \<open>
  Claim C3, as amended. When \<^verbatim>\<open>stabilisation\<close> returns, for an iteration \<open>n\<close> with
  \<open>2 \<le> n < nmax\<close> and every surviving pole \<open>i\<close> of \<^verbatim>\<open>sr[n]\<close>: its frequency and
  damping are in the column \<open>n - 1\<close>, and \<^verbatim>\<open>test_fn[i, n-1]\<close> is the number of rows
  \<open>q < 2 * n\<close> whose entry of the stored column \<open>n - 2\<close> (the values of \<^verbatim>\<open>sr[n-1]\<close>)
  is matched within \<open>err_fn\<close>. So \<^verbatim>\<open>test_fn\<close> is positive exactly when one of the
  first \<open>2 * n\<close> rows matches and zero exactly when none of them does; the same
  holds for the damping under \<open>err_xi\<close>. When \<^verbatim>\<open>sr[n-1]\<close> has at most \<open>2 * n\<close> poles,
  as the arrays of \<^verbatim>\<open>get_poles\<close> have, the rows from \<open>2 * n\<close> on are zero and match
  nothing, and the window covers every match of the column.
\<close>

theorem stabilisation_test_counts:
  assumes res: "stabilisation sr nmax err_fn err_xi = Inr (ft, xt, tf, tx)"
    and n: "2 \<le> n" "n < nmax"
  shows "\<exists>fn xi.
           redundant_values (fst (complex_freq_to_freq_and_damp (sr ! n)))
             (snd (complex_freq_to_freq_and_damp (sr ! n))) (1 / 1000) = Inr (fn, xi)
         \<and> length xi = length fn
         \<and> (\<forall>i<length fn.
               item ft i (n - 1) = Some (fn ! i) \<and> item xt i (n - 1) = xi ! i
             \<and> item tf i (n - 1)
                 = int (length (filter (\<lambda>q. matches (Some (fn ! i)) (item ft q (n - 2)) err_fn)
                                  [0..<2 * n]))
             \<and> item tx i (n - 1)
                 = int (length (filter (\<lambda>q. matches (xi ! i) (item xt q (n - 2)) err_xi)
                                  [0..<2 * n]))
             \<and> (0 < item tf i (n - 1)
                  \<longleftrightarrow> (\<exists>q<2 * n. matches (Some (fn ! i)) (item ft q (n - 2)) err_fn))
             \<and> (item tf i (n - 1) = 0
                  \<longleftrightarrow> (\<forall>q<2 * n. \<not> matches (Some (fn ! i)) (item ft q (n - 2)) err_fn))
             \<and> (0 < item tx i (n - 1)
                  \<longleftrightarrow> (\<exists>q<2 * n. matches (xi ! i) (item xt q (n - 2)) err_xi))
             \<and> (item tx i (n - 1) = 0
                  \<longleftrightarrow> (\<forall>q<2 * n. \<not> matches (xi ! i) (item xt q (n - 2)) err_xi))
             \<and> (length (sr ! (n - 1)) \<le> 2 * n \<longrightarrow>
                   (0 < item tf i (n - 1)
                      \<longleftrightarrow> (\<exists>q<2 * nmax. matches (Some (fn ! i)) (item ft q (n - 2)) err_fn))
                 \<and> (0 < item tx i (n - 1)
                      \<longleftrightarrow> (\<exists>q<2 * nmax. matches (xi ! i) (item xt q (n - 2)) err_xi))))"
proof -
  define m where "m = n - 1"
  have m: "1 \<le> m" "Suc m < nmax" and nm: "n = Suc m"
    using n by (simp_all add: m_def)
  from redundant_values_deduped [of "sr ! Suc m"] obtain fn xi where
    rv: "redundant_values (fst (complex_freq_to_freq_and_damp (sr ! Suc m)))
             (snd (complex_freq_to_freq_and_damp (sr ! Suc m))) (1 / 1000) = Inr (fn, xi)"
    and lx: "length xi = length fn" and f: "map Some fn = deduped_fn (sr ! Suc m)"
    and x: "xi = deduped_xi (sr ! Suc m)"
    by blast
  have lf: "length (deduped_fn (sr ! Suc m)) = length fn" using f by (metis length_map)
  have each: "\<forall>i<length fn.
               item ft i m = Some (fn ! i) \<and> item xt i m = xi ! i
             \<and> item tf i m
                 = int (length (filter (\<lambda>q. matches (Some (fn ! i)) (item ft q (m - 1)) err_fn)
                                  [0..<2 * Suc m]))
             \<and> item tx i m
                 = int (length (filter (\<lambda>q. matches (xi ! i) (item xt q (m - 1)) err_xi)
                                  [0..<2 * Suc m]))
             \<and> (0 < item tf i m
                  \<longleftrightarrow> (\<exists>q<2 * Suc m. matches (Some (fn ! i)) (item ft q (m - 1)) err_fn))
             \<and> (item tf i m = 0
                  \<longleftrightarrow> (\<forall>q<2 * Suc m. \<not> matches (Some (fn ! i)) (item ft q (m - 1)) err_fn))
             \<and> (0 < item tx i m
                  \<longleftrightarrow> (\<exists>q<2 * Suc m. matches (xi ! i) (item xt q (m - 1)) err_xi))
             \<and> (item tx i m = 0
                  \<longleftrightarrow> (\<forall>q<2 * Suc m. \<not> matches (xi ! i) (item xt q (m - 1)) err_xi))
             \<and> (length (sr ! m) \<le> 2 * Suc m \<longrightarrow>
                   (0 < item tf i m
                      \<longleftrightarrow> (\<exists>q<2 * nmax. matches (Some (fn ! i)) (item ft q (m - 1)) err_fn))
                 \<and> (0 < item tx i m
                      \<longleftrightarrow> (\<exists>q<2 * nmax. matches (xi ! i) (item xt q (m - 1)) err_xi)))"
  proof (intro allI impI)
    fix i assume i: "i < length fn"
    then have r: "i < length (deduped_fn (sr ! Suc m))" by (simp add: lf)
    have fi: "item ft i m = Some (fn ! i)"
      using stabilisation_compared(3) [OF res m, of i] padded_deduped(1) [OF f x, of i] i by simp
    have xi: "item xt i m = xi ! i"
      using stabilisation_compared(4) [OF res m, of i] padded_deduped(2) [OF f x, of i] i by simp
    have tf: "item tf i m
                 = int (length (filter (\<lambda>q. matches (Some (fn ! i)) (item ft q (m - 1)) err_fn)
                                  [0..<2 * Suc m]))"
      using stabilisation_counts(1) [OF res m r] by (simp only: fi)
    have tx: "item tx i m
                 = int (length (filter (\<lambda>q. matches (xi ! i) (item xt q (m - 1)) err_xi)
                                  [0..<2 * Suc m]))"
      using stabilisation_counts(2) [OF res m r] by (simp only: xi)
    have pf: "0 < item tf i m
                  \<longleftrightarrow> (\<exists>q<2 * Suc m. matches (Some (fn ! i)) (item ft q (m - 1)) err_fn)"
      by (simp only: tf length_filter_pos_iff)
    have zf: "item tf i m = 0
                  \<longleftrightarrow> (\<forall>q<2 * Suc m. \<not> matches (Some (fn ! i)) (item ft q (m - 1)) err_fn)"
      by (simp only: tf length_filter_zero_iff)
    have px: "0 < item tx i m
                  \<longleftrightarrow> (\<exists>q<2 * Suc m. matches (xi ! i) (item xt q (m - 1)) err_xi)"
      by (simp only: tx length_filter_pos_iff)
    have zx: "item tx i m = 0
                  \<longleftrightarrow> (\<forall>q<2 * Suc m. \<not> matches (xi ! i) (item xt q (m - 1)) err_xi)"
      by (simp only: tx length_filter_zero_iff)
    have wide: "length (sr ! m) \<le> 2 * Suc m \<longrightarrow>
                   (0 < item tf i m
                      \<longleftrightarrow> (\<exists>q<2 * nmax. matches (Some (fn ! i)) (item ft q (m - 1)) err_fn))
                 \<and> (0 < item tx i m
                      \<longleftrightarrow> (\<exists>q<2 * nmax. matches (xi ! i) (item xt q (m - 1)) err_xi))"
    proof
      assume short: "length (sr ! m) \<le> 2 * Suc m"
      have le: "2 * Suc m \<le> 2 * nmax" using m by simp
      have a: "(\<exists>q<2 * nmax. matches (Some (fn ! i)) (item ft q (m - 1)) err_fn)
                 \<longleftrightarrow> (\<exists>q<2 * Suc m. matches (Some (fn ! i)) (item ft q (m - 1)) err_fn)"
        using stabilisation_outside_window(1) [OF res m short] le
        by (meson not_le order.strict_trans2)
      have b: "(\<exists>q<2 * nmax. matches (xi ! i) (item xt q (m - 1)) err_xi)
                 \<longleftrightarrow> (\<exists>q<2 * Suc m. matches (xi ! i) (item xt q (m - 1)) err_xi)"
        using stabilisation_outside_window(2) [OF res m short] le
        by (meson not_le order.strict_trans2)
      from pf px a b show "(0 < item tf i m
                      \<longleftrightarrow> (\<exists>q<2 * nmax. matches (Some (fn ! i)) (item ft q (m - 1)) err_fn))
                 \<and> (0 < item tx i m
                      \<longleftrightarrow> (\<exists>q<2 * nmax. matches (xi ! i) (item xt q (m - 1)) err_xi))"
        by simp
    qed
    from fi xi tf tx pf zf px zx wide
    show "item ft i m = Some (fn ! i) \<and> item xt i m = xi ! i
             \<and> item tf i m
                 = int (length (filter (\<lambda>q. matches (Some (fn ! i)) (item ft q (m - 1)) err_fn)
                                  [0..<2 * Suc m]))
             \<and> item tx i m
                 = int (length (filter (\<lambda>q. matches (xi ! i) (item xt q (m - 1)) err_xi)
                                  [0..<2 * Suc m]))
             \<and> (0 < item tf i m
                  \<longleftrightarrow> (\<exists>q<2 * Suc m. matches (Some (fn ! i)) (item ft q (m - 1)) err_fn))
             \<and> (item tf i m = 0
                  \<longleftrightarrow> (\<forall>q<2 * Suc m. \<not> matches (Some (fn ! i)) (item ft q (m - 1)) err_fn))
             \<and> (0 < item tx i m
                  \<longleftrightarrow> (\<exists>q<2 * Suc m. matches (xi ! i) (item xt q (m - 1)) err_xi))
             \<and> (item tx i m = 0
                  \<longleftrightarrow> (\<forall>q<2 * Suc m. \<not> matches (xi ! i) (item xt q (m - 1)) err_xi))
             \<and> (length (sr ! m) \<le> 2 * Suc m \<longrightarrow>
                   (0 < item tf i m
                      \<longleftrightarrow> (\<exists>q<2 * nmax. matches (Some (fn ! i)) (item ft q (m - 1)) err_fn))
                 \<and> (0 < item tx i m
                      \<longleftrightarrow> (\<exists>q<2 * nmax. matches (xi ! i) (item xt q (m - 1)) err_xi)))"
      by blast
  qed
  have idx: "n - 1 = m" "n - 2 = m - 1" "2 * n = 2 * Suc m" "sr ! n = sr ! Suc m"
    using nm by simp_all
  show ?thesis
    unfolding idx using rv lx each by blast
qed

lemma fn_undamped:
  assumes "\<forall>f \<in> set fs. 0 < f"
  shows "fst (complex_freq_to_freq_and_damp (map undamped_pole fs)) = fs"
    and "snd (complex_freq_to_freq_and_damp (map undamped_pole fs)) = map (\<lambda>f. Some 0) fs"
  using assms
  by (simp_all add: complex_freq_to_freq_and_damp_def freq_and_damp_undamped map_idI)

lemma deduped_undamped:
  assumes "\<forall>f \<in> set fs. 0 < f"
    and "\<forall>i j. j < i \<and> i < length fs \<longrightarrow> \<not> \<bar>fs ! i - fs ! j\<bar> < 1 / 1000"
  shows "deduped_fn (map undamped_pole fs) = map Some fs"
    and "deduped_xi (map undamped_pole fs) = map (\<lambda>f. Some 0) fs"
  using survivors_far_apart [of "map undamped_pole fs"] assms(2)
  by (simp_all add: fn_undamped [OF assms(1)])

lemma deduped_example_12:
  "deduped_fn [undamped_pole 1, undamped_pole 2] = [Some 1, Some 2]"
  using deduped_undamped(1) [of "[1, 2]"] by (simp add: nth_Cons' less_Suc_eq)

lemma deduped_example_27:
  "deduped_fn [undamped_pole 2, undamped_pole 7] = [Some 2, Some 7]"
  using deduped_undamped(1) [of "[2, 7]"] by (simp add: nth_Cons' less_Suc_eq)

lemma deduped_example_5:
  "deduped_fn [undamped_pole 5] = [Some 5]"
  using deduped_undamped(1) [of "[5]"] by simp

lemma deduped_example_12345:
  "deduped_fn [undamped_pole 1, undamped_pole 2, undamped_pole 3, undamped_pole 4,
               undamped_pole 5]
     = [Some 1, Some 2, Some 3, Some 4, Some 5]"
  using deduped_undamped(1) [of "[1, 2, 3, 4, 5]"] by (simp add: nth_Cons' less_Suc_eq)

lemma deduped_empty: "deduped_fn [] = []"
  by (simp add: deduped_fn_def survivors_def)

lemma matches_Some:
  "matches (Some a) (Some b) err \<longleftrightarrow> b \<noteq> 0 \<and> \<bar>(a - b) / b\<bar> < err"
  by (simp add: matches_def rel_dev_def abs_lt_def np_div_def)

theorem stabilisation_test_counts_witness:
  "\<exists>ft xt tf tx.
      stabilisation [[], [undamped_pole 1, undamped_pole 2], [undamped_pole 2, undamped_pole 7]] 3 (1 / 1000) (1 / 20)
        = Inr (ft, xt, tf, tx)
    \<and> item ft 0 1 = Some 2 \<and> item ft 1 0 = Some 2 \<and> 0 < item tf 0 1
    \<and> item ft 1 1 = Some 7 \<and> item tf 1 1 = 0"
proof -
  let ?sr = "[[], [undamped_pole 1, undamped_pole 2], [undamped_pole 2, undamped_pole 7]]"
  have "\<forall>n<3. length (deduped_fn (?sr ! n)) \<le> 2 * 3"
  proof (intro allI impI)
    fix n :: nat assume "n < 3"
    then have "length (?sr ! n) \<le> 6"
      by (auto simp: less_Suc_eq numeral_3_eq_3)
    with length_deduped_le [of "?sr ! n"] show "length (deduped_fn (?sr ! n)) \<le> 2 * 3"
      by linarith
  qed
  moreover have "3 \<le> length ?sr" by simp
  moreover have "(3 :: nat) = 1 \<longrightarrow> deduped_fn (?sr ! 0) = []" by simp
  ultimately have "\<exists>ft xt tf tx. stabilisation ?sr 3 (1 / 1000) (1 / 20) = Inr (ft, xt, tf, tx)"
    by (intro stabilisation_returns)
  then obtain ft xt tf tx where
    res: "stabilisation ?sr 3 (1 / 1000) (1 / 20) = Inr (ft, xt, tf, tx)"
    by blast
  have col0: "\<And>q. item ft q 0 = padded [Some 1, Some 2] q"
    using stabilisation_compared(1) [OF res, of 1] by (simp add: deduped_example_12)
  have n: "(2::nat) \<le> 2" "(2::nat) < 3" by simp_all
  from stabilisation_test_counts [OF res n] obtain fn xi where
    rv: "redundant_values (fst (complex_freq_to_freq_and_damp (?sr ! 2)))
             (snd (complex_freq_to_freq_and_damp (?sr ! 2))) (1 / 1000) = Inr (fn, xi)"
    and cells: "\<forall>i<length fn.
               item ft i (2 - 1) = Some (fn ! i) \<and> item xt i (2 - 1) = xi ! i
             \<and> item tf i (2 - 1)
                 = int (length (filter (\<lambda>q. matches (Some (fn ! i)) (item ft q (2 - 2)) (1 / 1000))
                                  [0..<2 * 2]))
             \<and> item tx i (2 - 1)
                 = int (length (filter (\<lambda>q. matches (xi ! i) (item xt q (2 - 2)) (1 / 20))
                                  [0..<2 * 2]))
             \<and> (0 < item tf i (2 - 1)
                  \<longleftrightarrow> (\<exists>q<2 * 2. matches (Some (fn ! i)) (item ft q (2 - 2)) (1 / 1000)))
             \<and> (item tf i (2 - 1) = 0
                  \<longleftrightarrow> (\<forall>q<2 * 2. \<not> matches (Some (fn ! i)) (item ft q (2 - 2)) (1 / 1000)))
             \<and> (0 < item tx i (2 - 1)
                  \<longleftrightarrow> (\<exists>q<2 * 2. matches (xi ! i) (item xt q (2 - 2)) (1 / 20)))
             \<and> (item tx i (2 - 1) = 0
                  \<longleftrightarrow> (\<forall>q<2 * 2. \<not> matches (xi ! i) (item xt q (2 - 2)) (1 / 20)))
             \<and> (length (?sr ! (2 - 1)) \<le> 2 * 2 \<longrightarrow>
                   (0 < item tf i (2 - 1)
                      \<longleftrightarrow> (\<exists>q<2 * 3. matches (Some (fn ! i)) (item ft q (2 - 2)) (1 / 1000)))
                 \<and> (0 < item tx i (2 - 1)
                      \<longleftrightarrow> (\<exists>q<2 * 3. matches (xi ! i) (item xt q (2 - 2)) (1 / 20))))"
    by (elim exE conjE) (rule that)
  from rv redundant_values_deduped [of "[undamped_pole 2, undamped_pole 7]"]
  have fn: "fn = [2, 7]"
    by (auto simp: deduped_example_27 map_eq_Cons_conv)
  have l: "0 < length fn" "1 < length fn" by (simp_all add: fn)
  have first: "item ft 0 (2 - 1) = Some (fn ! 0)"
    and pos: "0 < item tf 0 (2 - 1)
                  \<longleftrightarrow> (\<exists>q<2 * 2. matches (Some (fn ! 0)) (item ft q (2 - 2)) (1 / 1000))"
    using cells [rule_format, OF l(1)] by blast+
  have second: "item ft 1 (2 - 1) = Some (fn ! 1)"
    and zero: "item tf 1 (2 - 1) = 0
                  \<longleftrightarrow> (\<forall>q<2 * 2. \<not> matches (Some (fn ! 1)) (item ft q (2 - 2)) (1 / 1000))"
    using cells [rule_format, OF l(2)] by blast+
  have "matches (Some (fn ! 0)) (item ft 1 (2 - 2)) (1 / 1000)"
    by (simp add: fn col0 padded_def matches_Some)
  then have "\<exists>q<2 * 2. matches (Some (fn ! 0)) (item ft q (2 - 2)) (1 / 1000)"
    by (intro exI [of _ 1]) simp
  with first pos have a: "item ft 0 1 = Some 2" "0 < item tf 0 1"
    by (simp_all add: fn)
  have "\<And>q. \<not> matches (Some (fn ! 1)) (item ft q (2 - 2)) (1 / 1000)"
    by (simp add: fn col0 padded_def matches_Some nth_Cons')
  with second zero have b: "item ft 1 1 = Some 7" "item tf 1 1 = 0"
    by (simp_all add: fn)
  have c: "item ft 1 0 = Some 2" by (simp add: col0 padded_def)
  from res a b c show ?thesis by blast
qed

text \<open>
  Claim C3 as stated fails where the match lies outside the window. With
  \<open>nmax = 3\<close>, five poles of the frequencies 1 to 5 Hz in \<^verbatim>\<open>sr[1]\<close> and one pole of
  5 Hz in \<^verbatim>\<open>sr[2]\<close>, the call returns; at \<open>n = 2\<close> the pole (row 0 of column \<open>n - 1 = 1\<close>)
  matches the entry in row 4 of the stored column \<open>n - 2 = 0\<close> exactly, but the window
  holds the rows 0 to 3 only, and \<^verbatim>\<open>test_fn[0, 1]\<close> is 0.
\<close>

theorem stabilisation_test_counts_counterexample:
  "\<not> isl (stabilisation [[], [undamped_pole 1, undamped_pole 2, undamped_pole 3,
            undamped_pole 4, undamped_pole 5], [undamped_pole 5]] 3
            (1 / 1000) (1 / 20))
 \<and> item (fst (projr (stabilisation [[], [undamped_pole 1, undamped_pole 2, undamped_pole 3,
            undamped_pole 4, undamped_pole 5], [undamped_pole 5]] 3
            (1 / 1000) (1 / 20)))) 0 1 = Some 5
 \<and> item (fst (projr (stabilisation [[], [undamped_pole 1, undamped_pole 2, undamped_pole 3,
            undamped_pole 4, undamped_pole 5], [undamped_pole 5]] 3
            (1 / 1000) (1 / 20)))) 4 0 = Some 5
 \<and> matches (Some 5) (Some 5) (1 / 1000)
 \<and> item (fst (snd (snd (projr (stabilisation
            [[], [undamped_pole 1, undamped_pole 2, undamped_pole 3,
            undamped_pole 4, undamped_pole 5], [undamped_pole 5]] 3
            (1 / 1000) (1 / 20)))))) 0 1 = 0"
proof -
  let ?sr = "[[], [undamped_pole 1, undamped_pole 2, undamped_pole 3,
            undamped_pole 4, undamped_pole 5], [undamped_pole 5]]"
  have "\<forall>n<3. length (deduped_fn (?sr ! n)) \<le> 2 * 3"
  proof (intro allI impI)
    fix n :: nat assume "n < 3"
    then have "length (?sr ! n) \<le> 6"
      by (auto simp: less_Suc_eq numeral_3_eq_3)
    with length_deduped_le [of "?sr ! n"] show "length (deduped_fn (?sr ! n)) \<le> 2 * 3"
      by linarith
  qed
  moreover have "3 \<le> length ?sr" by simp
  moreover have "(3 :: nat) = 1 \<longrightarrow> deduped_fn (?sr ! 0) = []" by simp
  ultimately have "\<exists>ft xt tf tx. stabilisation ?sr 3 (1 / 1000) (1 / 20) = Inr (ft, xt, tf, tx)"
    by (intro stabilisation_returns)
  then obtain ft xt tf tx where
    res: "stabilisation ?sr 3 (1 / 1000) (1 / 20) = Inr (ft, xt, tf, tx)"
    by blast
  have m: "(1::nat) \<le> 1" "Suc 1 < (3::nat)" by simp_all
  have col0: "\<And>q. item ft q 0 = padded [Some 1, Some 2, Some 3, Some 4, Some 5] q"
    using stabilisation_compared(1) [OF res m] by (simp add: deduped_example_12345)
  have a: "item ft 0 1 = Some 5"
    using stabilisation_compared(3) [OF res m, of 0] by (simp add: deduped_example_5 padded_def)
  have b: "item ft 4 0 = Some 5" by (simp add: col0 padded_def)
  have r: "0 < length (deduped_fn (?sr ! Suc 1))" by (simp add: deduped_example_5)
  have four: "[0..<4] = [0, 1, 2, 3 :: nat]" by code_simp
  have c: "item tf 0 1 = 0"
    using stabilisation_counts(1) [OF res m r] a
    by (simp add: four col0 padded_def matches_Some)
  have d: "matches (Some 5) (Some 5) (1 / 1000)" by (simp add: matches_Some)
  from res a b c d show ?thesis by simp
qed

subsection \<open>The LSFD estimate and the reconstruction\<close>

lemma lsfd_lower_residual_entry:
  assumes "i < length ome"
  shows "getitem2 (lsfd_TA ome ps complex_mode upper_r True) (int i) (- 4)
           = Inr (fneg (np_div 1 (float64_square (guarded_ome (ome ! i)))))"
proof -
  have c4: "py_index (- 4) (length ps * 2 + 4) = Inr (2 * length ps)"
    by (simp add: py_index_def)
  show ?thesis
    using assms by (simp add: getitem2_def lsfd_TA_def Let_def c4)
qed

lemma tiny_square: "(2 * pi * (1 / 2 ^ 600))\<^sup>2 \<le> 1 / 2 ^ 1075"
proof -
  have "pi * pi \<le> 4 * 4"
    using pi_less_4 pi_gt_zero by (intro mult_mono) simp_all
  then have "(2 * pi)\<^sup>2 \<le> 2 ^ 6"
    by (simp add: power2_eq_square)
  then have "(2 * pi)\<^sup>2 * (1 / 2 ^ 1200) \<le> 2 ^ 6 * (1 / 2 ^ 1200)"
    by (intro mult_right_mono) simp_all
  moreover have "(2 * pi * (1 / 2 ^ 600))\<^sup>2 = (2 * pi)\<^sup>2 * (1 / 2 ^ 1200)"
    by (simp add: power_mult_distrib power_divide)
  moreover have "(2 :: real) ^ 6 * (1 / 2 ^ 1200) \<le> 1 / 2 ^ 1075"
    by simp
  ultimately show ?thesis by linarith
qed

text \<open>
  Claim C8. The guard of lines 520-523 replaces an angular frequency that is exactly
  zero by \<open>0.01\<close>, and the entry of the column \<open>-4\<close> is then \<open>-10000\<close>. It does not
  keep the division from dividing by zero for every frequency vector: the divisor is
  the square \<^verbatim>\<open>(_ome)**2\<close>, and the guard tests \<^verbatim>\<open>ome[i]\<close>. For the frequencies
  \<open>[0, 2 ^ - 600]\<close> the second angular frequency is not zero and passes the guard
  unchanged, its square underflows to zero, and the entry of the column \<open>-4\<close> is the
  quotient of one by zero, not finite.
\<close>

theorem lsfd_lower_residual_underflow:
  "guarded_ome (2 * pi * 0) = 1 / 100
 \<and> getitem2 (lsfd_TA (map (\<lambda>f. 2 * pi * f) [0, 1 / 2 ^ 600]) [Complex (- 1) 1] True True True)
      0 (- 4) = Inr (Some (- 10000))
 \<and> 2 * pi * (1 / 2 ^ 600) \<noteq> 0
 \<and> guarded_ome (2 * pi * (1 / 2 ^ 600)) = 2 * pi * (1 / 2 ^ 600)
 \<and> float64_square (guarded_ome (2 * pi * (1 / 2 ^ 600))) = 0
 \<and> np_div 1 (float64_square (guarded_ome (2 * pi * (1 / 2 ^ 600)))) = None
 \<and> getitem2 (lsfd_TA (map (\<lambda>f. 2 * pi * f) [0, 1 / 2 ^ 600]) [Complex (- 1) 1] True True True)
      1 (- 4) = Inr None"
proof -
  have g: "guarded_ome (2 * pi * (1 / 2 ^ 600)) = 2 * pi * (1 / 2 ^ 600)"
    by (simp add: guarded_ome_def)
  have sq: "float64_square (guarded_ome (2 * pi * (1 / 2 ^ 600))) = 0"
    unfolding g float64_square_def using tiny_square by simp
  have g0: "guarded_ome (2 * pi * 0) = 1 / 100"
    by (simp add: guarded_ome_def)
  have sq0: "float64_square (1 / 100) = 1 / 10000"
    by (simp add: float64_square_def power2_eq_square)
  have e0: "getitem2 (lsfd_TA (map (\<lambda>f. 2 * pi * f) [0, 1 / 2 ^ 600]) [Complex (- 1) 1]
              True True True) 0 (- 4) = Inr (Some (- 10000))"
    using lsfd_lower_residual_entry
            [of 0 "map (\<lambda>f. 2 * pi * f) [0, 1 / 2 ^ 600]" "[Complex (- 1) 1]" True True]
    by (simp add: guarded_ome_def sq0 np_div_def fneg_def)
  have e1: "getitem2 (lsfd_TA (map (\<lambda>f. 2 * pi * f) [0, 1 / 2 ^ 600]) [Complex (- 1) 1]
              True True True) 1 (- 4) = Inr None"
    using lsfd_lower_residual_entry
            [of 1 "map (\<lambda>f. 2 * pi * f) [0, 1 / 2 ^ 600]" "[Complex (- 1) 1]" True True] sq
    by (simp add: np_div_def fneg_def)
  have nz: "2 * pi * (1 / 2 ^ 600) \<noteq> (0 :: real)" by simp
  have d: "np_div 1 (float64_square (guarded_ome (2 * pi * (1 / 2 ^ 600)))) = None"
    unfolding sq by (simp add: np_div_def)
  from g0 e0 nz g sq d e1 show ?thesis by blast
qed

lemma collect_Inr:
  "collect f xs = Inr ys \<Longrightarrow> length ys = length xs \<and> (\<forall>i<length xs. f (xs ! i) = Inr (ys ! i))"
proof (induction xs arbitrary: ys)
  case Nil
  then show ?case by simp
next
  case (Cons x xs)
  from Cons.prems obtain y rest where
    y: "f x = Inr y" and rest: "collect f xs = Inr rest" and ys: "ys = y # rest"
    by (auto simp: then_do_eq_Inr)
  from Cons.IH [OF rest] y show ?case
    by (auto simp: ys nth_Cons')
qed

lemma collect_returns:
  "(\<forall>x \<in> set xs. \<exists>y. f x = Inr y) \<Longrightarrow> \<exists>ys. collect f xs = Inr ys"
proof (induction xs)
  case Nil
  then show ?case by simp
next
  case (Cons x xs)
  then obtain y ys where "f x = Inr y" "collect f xs = Inr ys" by auto
  then show ?case by simp
qed

lemma lsfd_estimate_Inr:
  assumes "lsfd_estimate pinv self whose_poles f_lower f_upper complex_mode upper_r lower_r
             = Inr self'"
  shows "\<exists>m inds a lrs urs ps.
           frf self = Some (Frf m)
         \<and> pole_ind (case whose_poles of None \<Rightarrow> self | Some other \<Rightarrow> other) = Some inds
         \<and> A self' = Some a \<and> shape0 a = shape0 m \<and> shape1 a = length inds
         \<and> LR self' = Some lrs \<and> length lrs = shape0 m
         \<and> UR self' = Some urs \<and> length urs = shape0 m
         \<and> poles self' = Some ps \<and> length ps = length inds
         \<and> omega self' = omega self \<and> frf self' = frf self"
proof -
  let ?wp = "case whose_poles of None \<Rightarrow> self | Some other \<Rightarrow> other"
  from assms obtain inds ps f where
    inds: "pole_ind ?wp = Some inds"
    and ps: "collect (selected_pole ?wp) inds = Inr ps"
    and f: "frf self = Some f"
    unfolding lsfd_estimate_def Let_def
    by (auto simp: then_do_eq_Inr)
  from assms f obtain m where m: "f = Frf m"
    unfolding lsfd_estimate_def Let_def
    by (cases f) (auto simp: then_do_eq_Inr)
  have len: "length ps = length inds" using collect_Inr [OF ps] by simp
  from assms inds ps f m len show ?thesis
    unfolding lsfd_estimate_def Let_def
    by (auto simp: then_do_eq_Inr)
qed

lemma getitem2_nat:
  "getitem2 m (int i) (int j) = (if i < shape0 m \<and> j < shape1 m then Inr (item m i j)
                                 else Inl IndexError)"
  by (simp add: getitem2_def)

lemma reconstruct_loop_returns:
  assumes k: "k < shape0 a" and ps: "poles self = Some ps" and acc: "length acc = length om"
  shows "n \<le> shape1 a \<Longrightarrow> n \<le> length ps \<Longrightarrow>
         \<exists>r. for_each (reconstruct_step self a om (int k)) [0..<n] acc = Inr r
            \<and> length r = length om"
proof (induction n)
  case 0
  with acc show ?case by simp
next
  case (Suc n)
  then obtain mid where
    mid: "for_each (reconstruct_step self a om (int k)) [0..<n] acc = Inr mid"
    and len: "length mid = length om"
    by auto
  from Suc.prems k ps have "\<exists>r. reconstruct_step self a om (int k) n mid = Inr r
                             \<and> length r = length om"
    by (simp add: reconstruct_step_def getitem2_nat getitem_def len)
  with mid show ?case by (simp add: for_each_snoc)
qed

lemma FRF_reconstruct_int_returns:
  assumes "omega self = Some om" and "A self = Some a" and "poles self = Some ps"
    and "LR self = Some lrs" and "UR self = Some urs"
    and "k < shape0 a" and "shape1 a = length ps"
    and "length lrs = shape0 a" and "length urs = shape0 a"
  shows "\<exists>row. FRF_reconstruct self (PyInt (int k)) = Inr row \<and> length row = length om"
proof -
  from reconstruct_loop_returns [OF assms(6) assms(3), of "map (\<lambda>w. Some 0) om" om "shape1 a"]
    assms(7)
  obtain r where
    "for_each (reconstruct_step self a om (int k)) [0..<shape1 a] (map (\<lambda>w. Some 0) om) = Inr r"
    and "length r = length om"
    by auto
  with assms show ?thesis
    by (simp add: FRF_reconstruct_def getitem_def)
qed

lemma reconstruct_bool_fails:
  "isl (reconstruct_bool self a om b) \<and> \<not> raises_exception (reconstruct_bool self a om b)"
  by (auto simp: reconstruct_bool_def raises_exception_def then_do_def attr_def getitem_def
        py_index_def split: option.splits sum.splits)

lemma FRF_reconstruct_bool_fails:
  "isl (FRF_reconstruct self (PyBool b)) \<and> \<not> raises_exception (FRF_reconstruct self (PyBool b))"
proof (cases "omega self")
  case None
  then show ?thesis by (simp add: FRF_reconstruct_def raises_exception_def)
next
  case om: (Some om)
  show ?thesis
  proof (cases "A self")
    case None
    with om show ?thesis by (simp add: FRF_reconstruct_def raises_exception_def)
  next
    case (Some a)
    with om reconstruct_bool_fails [of self a om b] show ?thesis
      by (simp add: FRF_reconstruct_def)
  qed
qed

lemma FRF_reconstruct_bool_error:
  assumes "omega self = Some om" and "A self = Some a" and "poles self = Some ps"
    and "LR self = Some lrs" and "UR self = Some urs" and "shape1 a = length ps"
  shows "FRF_reconstruct self (PyBool b)
           = Inl (if 1 \<le> shape1 a \<and> shape0 a = 0 then IndexError else ValueError)"
  using assms
  by (cases ps) (auto simp: FRF_reconstruct_def reconstruct_bool_def getitem_def py_index_def)

lemma raises_then_do:
  "raises_exception (then_do m f)
     \<longleftrightarrow> raises_exception m \<or> (\<exists>x. m = Inr x \<and> raises_exception (f x))"
  by (cases m) (auto simp: raises_exception_def)

lemma no_exception_simps [simp]:
  "\<not> raises_exception (Inr x)"
  "\<not> raises_exception (Inl IndexError)"
  "\<not> raises_exception (Inl ValueError)"
  "\<not> raises_exception (Inl AttributeError)"
  "\<not> raises_exception (Inl TypeError)"
  "\<not> raises_exception (Inl LinAlgError)"
  "\<not> raises_exception (attr v)"
  "\<not> raises_exception (argmin xs)"
  "\<not> raises_exception (getitem ys i)"
  by (auto simp: raises_exception_def attr_def argmin_def getitem_def py_index_def then_do_def
        split: option.splits list.splits sum.splits)

lemma collect_no_exception:
  "(\<And>x. \<not> raises_exception (f x)) \<Longrightarrow> \<not> raises_exception (collect f xs)"
  by (induction xs) (auto simp: raises_then_do)

lemma selected_pole_no_exception: "\<not> raises_exception (selected_pole wp ind)"
  by (simp add: selected_pole_def raises_then_do)

lemma fmatmul_no_exception: "\<not> raises_exception (fmatmul x y)"
  by (simp add: fmatmul_def)

lemma lsfd_rows_no_exception: "\<not> raises_exception (lsfd_rows x y io w)"
  by (simp add: lsfd_rows_def)

lemma lsfd_estimate_no_exception:
  "\<not> raises_exception
       (lsfd_estimate pinv self whose_poles f_lower f_upper complex_mode upper_r lower_r)"
  unfolding lsfd_estimate_def Let_def
  by (auto simp: raises_then_do collect_no_exception selected_pole_no_exception
        fmatmul_no_exception lsfd_rows_no_exception
        split: option.splits frf_attr.splits)

lemma lsfd_None_Inr:
  "lsfd pinv self whose_poles FRF_None f_lower f_upper complex_mode upper_r lower_r = Inr (res, self')
     \<longleftrightarrow> (\<exists>a. lsfd_estimate pinv self whose_poles f_lower f_upper complex_mode upper_r lower_r
                  = Inr self'
              \<and> A self' = Some a \<and> res = Modal a)"
  by (auto simp: lsfd_def then_do_eq_Inr)

lemma lsfd_all_returns:
  assumes est: "lsfd_estimate pinv self whose_poles f_lower f_upper complex_mode upper_r lower_r
                  = Inr self'"
    and om: "omega self = Some om"
  shows "\<exists>F a m. lsfd pinv self whose_poles (FRF_str ''all'') f_lower f_upper complex_mode
                    upper_r lower_r = Inr (FRF_all F a, self')
             \<and> A self' = Some a \<and> frf self = Some (Frf m)
             \<and> shape0 F = shape0 m \<and> shape1 F = length om"
proof -
  from lsfd_estimate_Inr [OF est] obtain m inds a lrs urs ps where
    m: "frf self = Some (Frf m)"
    and inds: "pole_ind (case whose_poles of None \<Rightarrow> self | Some other \<Rightarrow> other) = Some inds"
    and a: "A self' = Some a"
    and sh: "shape0 a = shape0 m" "shape1 a = length inds"
    and lr: "LR self' = Some lrs" "length lrs = shape0 m"
    and ur: "UR self' = Some urs" "length urs = shape0 m"
    and ps: "poles self' = Some ps" "length ps = length inds"
    and same: "omega self' = omega self" "frf self' = frf self"
    by blast
  have om': "omega self' = Some om" using om same by simp
  have "\<forall>i \<in> set [0..<shape0 m]. \<exists>row. FRF_reconstruct self' (PyInt (int i)) = Inr row"
  proof
    fix i assume "i \<in> set [0..<shape0 m]"
    then have i: "i < shape0 a" using sh by simp
    from FRF_reconstruct_int_returns [OF om' a ps(1) lr(1) ur(1) i] sh lr ur ps
    show "\<exists>row. FRF_reconstruct self' (PyInt (int i)) = Inr row" by auto
  qed
  from collect_returns [OF this] obtain rows where
    "collect (\<lambda>i. FRF_reconstruct self' (PyInt (int i))) [0..<shape0 m] = Inr rows"
    by blast
  with est m a om' same show ?thesis
    by (simp add: lsfd_def)
qed

lemma lsfd_invalid:
  assumes est: "lsfd_estimate pinv self whose_poles f_lower f_upper complex_mode upper_r lower_r
                  = Inr self'"
  shows "s \<noteq> ''all'' \<Longrightarrow>
           lsfd pinv self whose_poles (FRF_str s) f_lower f_upper complex_mode upper_r lower_r
             = Inl (Exception FRF_ind_message)"
    and "lsfd pinv self whose_poles FRF_other f_lower f_upper complex_mode upper_r lower_r
             = Inl (Exception FRF_ind_message)"
  using est by (simp_all add: lsfd_def)

text \<open>
  Claim C1, as amended. Whenever \<^verbatim>\<open>lsfd\<close> returns for \<^verbatim>\<open>FRF_ind=None\<close>, it returns the
  modal constants alone, an array of the shape (number of outputs, number of selected
  poles); with \<^verbatim>\<open>FRF_ind='all'\<close> it then returns a matrix of the shape (number of
  outputs, number of entries of \<^verbatim>\<open>self.omega\<close>) with the same modal constants; and
  with a string other than \<^verbatim>\<open>'all'\<close>, or a value such as a float or a tuple (not \<^verbatim>\<open>None\<close>,
  not equal to \<^verbatim>\<open>'all'\<close>, not an \<^verbatim>\<open>int\<close>), it raises the \<^verbatim>\<open>Exception\<close> of line 568.
\<close>

theorem lsfd_selector:
  assumes ret: "lsfd pinv self whose_poles FRF_None f_lower f_upper complex_mode upper_r lower_r
                  = Inr (res, self')"
  shows "\<exists>a m inds.
           res = Modal a \<and> A self' = Some a \<and> frf self = Some (Frf m)
         \<and> pole_ind (case whose_poles of None \<Rightarrow> self | Some other \<Rightarrow> other) = Some inds
         \<and> shape0 a = shape0 m \<and> shape1 a = length inds
         \<and> (\<forall>om. omega self = Some om \<longrightarrow>
               (\<exists>F. lsfd pinv self whose_poles (FRF_str ''all'') f_lower f_upper complex_mode
                       upper_r lower_r = Inr (FRF_all F a, self')
                   \<and> shape0 F = shape0 m \<and> shape1 F = length om))
         \<and> (\<forall>s. s \<noteq> ''all'' \<longrightarrow>
               lsfd pinv self whose_poles (FRF_str s) f_lower f_upper complex_mode upper_r lower_r
                 = Inl (Exception FRF_ind_message))
         \<and> lsfd pinv self whose_poles FRF_other f_lower f_upper complex_mode upper_r lower_r
             = Inl (Exception FRF_ind_message)"
proof -
  from ret obtain a where
    est: "lsfd_estimate pinv self whose_poles f_lower f_upper complex_mode upper_r lower_r
            = Inr self'"
    and a: "A self' = Some a" and res: "res = Modal a"
    by (auto simp: lsfd_None_Inr)
  from lsfd_estimate_Inr [OF est] a obtain m inds where
    m: "frf self = Some (Frf m)"
    and inds: "pole_ind (case whose_poles of None \<Rightarrow> self | Some other \<Rightarrow> other) = Some inds"
    and sh: "shape0 a = shape0 m" "shape1 a = length inds"
    by auto
  have all: "\<forall>om. omega self = Some om \<longrightarrow>
               (\<exists>F. lsfd pinv self whose_poles (FRF_str ''all'') f_lower f_upper complex_mode
                       upper_r lower_r = Inr (FRF_all F a, self')
                   \<and> shape0 F = shape0 m \<and> shape1 F = length om)"
  proof (intro allI impI)
    fix om assume "omega self = Some om"
    from lsfd_all_returns [OF est this] a m
    show "\<exists>F. lsfd pinv self whose_poles (FRF_str ''all'') f_lower f_upper complex_mode
                       upper_r lower_r = Inr (FRF_all F a, self')
                   \<and> shape0 F = shape0 m \<and> shape1 F = length om"
      by auto
  qed
  from res a m inds sh all lsfd_invalid [OF est] show ?thesis by blast
qed

lemma two_outputs_estimate:
  "\<exists>self'. lsfd_estimate zero_pinv two_outputs None None None True True True = Inr self'"
  by (simp add: lsfd_estimate_def two_outputs_def new_object_def zero_pinv_def selected_pole_def
        getitem_def py_index_def argmin_def cols_slice_def lsfd_TA_def fmatmul_def transpose2_def
        lsfd_rows_def Let_def)

lemma two_outputs_None:
  "\<exists>a self'. lsfd zero_pinv two_outputs None FRF_None None None True True True
                = Inr (Modal a, self')
            \<and> A self' = Some a \<and> LR self' \<noteq> None \<and> UR self' \<noteq> None
            \<and> poles self' = Some [Complex (- 1) 1] \<and> omega self' = Some [2 * pi]
            \<and> shape0 a = 2 \<and> shape1 a = 1"
proof -
  from two_outputs_estimate obtain self' where
    est: "lsfd_estimate zero_pinv two_outputs None None None True True True = Inr self'" ..
  from lsfd_estimate_Inr [OF est] obtain a ps where
    "A self' = Some a" "shape0 a = 2" "shape1 a = 1" "LR self' \<noteq> None" "UR self' \<noteq> None"
    "omega self' = Some [2 * pi]" "poles self' = Some ps"
    by (auto simp: two_outputs_def new_object_def)
  moreover from est have "poles self' = Some [Complex (- 1) 1]"
    by (auto simp: lsfd_estimate_def two_outputs_def new_object_def zero_pinv_def
          selected_pole_def getitem_def py_index_def argmin_def cols_slice_def lsfd_TA_def
          fmatmul_def transpose2_def lsfd_rows_def Let_def)
  ultimately show ?thesis using est by (auto simp: lsfd_None_Inr)
qed

theorem lsfd_selector_witness:
  "\<exists>a F self'.
      lsfd zero_pinv two_outputs None FRF_None None None True True True = Inr (Modal a, self')
    \<and> shape0 a = 2 \<and> shape1 a = 1
    \<and> lsfd zero_pinv two_outputs None (FRF_str ''all'') None None True True True
        = Inr (FRF_all F a, self')
    \<and> shape0 F = 2 \<and> shape1 F = 1
    \<and> lsfd zero_pinv two_outputs None (FRF_str ''every'') None None True True True
        = Inl (Exception FRF_ind_message)
    \<and> lsfd zero_pinv two_outputs None FRF_other None None True True True
        = Inl (Exception FRF_ind_message)"
proof -
  from two_outputs_None obtain a self' where
    ret: "lsfd zero_pinv two_outputs None FRF_None None None True True True = Inr (Modal a, self')"
    and sh: "shape0 a = 2" "shape1 a = 1"
    by blast
  have om: "omega two_outputs = Some [2 * pi]"
    by (simp add: two_outputs_def new_object_def)
  from lsfd_selector [OF ret] om obtain F where
    "lsfd zero_pinv two_outputs None (FRF_str ''all'') None None True True True
        = Inr (FRF_all F a, self')"
    "shape0 F = shape0 a" "shape1 F = length [2 * pi]"
    "lsfd zero_pinv two_outputs None (FRF_str ''every'') None None True True True
        = Inl (Exception FRF_ind_message)"
    "lsfd zero_pinv two_outputs None FRF_other None None True True True
        = Inl (Exception FRF_ind_message)"
    by fastforce
  with ret sh show ?thesis by auto
qed

text \<open>
  Claim C1 as stated gives the modal constants \<open>2 * numPoles + 4\<close> columns. With two
  outputs and one selected pole, \<^verbatim>\<open>lsfd\<close> returns for \<^verbatim>\<open>FRF_ind=None\<close> an array of the
  shape \<open>(2, 1)\<close>, where the claim has \<open>(2, 6)\<close>: the six columns are those of the
  local \<^verbatim>\<open>A_LSFD\<close>, from which \<^verbatim>\<open>self.A\<close>, \<^verbatim>\<open>self.LR\<close> and \<^verbatim>\<open>self.UR\<close> are cut.
\<close>

theorem lsfd_selector_counterexample:
  "\<not> isl (lsfd zero_pinv two_outputs None FRF_None None None True True True)
 \<and> pole_ind two_outputs = Some [(0, 0)]
 \<and> shape0 (modal_of (fst (projr (lsfd zero_pinv two_outputs None FRF_None None None
                                     True True True)))) = 2
 \<and> shape1 (modal_of (fst (projr (lsfd zero_pinv two_outputs None FRF_None None None
                                     True True True)))) = 1
 \<and> 2 * length [(0 :: int, 0 :: int)] + 4 = 6"
proof -
  from two_outputs_None obtain a self' where
    "lsfd zero_pinv two_outputs None FRF_None None None True True True = Inr (Modal a, self')"
    "shape0 a = 2" "shape1 a = 1"
    by blast
  then show ?thesis
    by (simp add: modal_of_def two_outputs_def new_object_def)
qed

lemma lsfd_int_returns:
  assumes est: "lsfd_estimate pinv self whose_poles f_lower f_upper complex_mode upper_r lower_r
                  = Inr self'"
    and om: "omega self = Some om" and m: "frf self = Some (Frf m)" and k: "k < shape0 m"
  shows "\<exists>row a. lsfd pinv self whose_poles (FRF_int (PyInt (int k))) f_lower f_upper
                    complex_mode upper_r lower_r = Inr (FRF_row row a, self')
               \<and> A self' = Some a \<and> length row = length om"
proof -
  from lsfd_estimate_Inr [OF est] m obtain inds a lrs urs ps where
    inds: "pole_ind (case whose_poles of None \<Rightarrow> self | Some other \<Rightarrow> other) = Some inds"
    and a: "A self' = Some a"
    and sh: "shape0 a = shape0 m" "shape1 a = length inds"
    and lr: "LR self' = Some lrs" "length lrs = shape0 m"
    and ur: "UR self' = Some urs" "length urs = shape0 m"
    and ps: "poles self' = Some ps" "length ps = length inds"
    and same: "omega self' = omega self"
    by auto
  have om': "omega self' = Some om" using om same by simp
  have "k < shape0 a" using k sh by simp
  from FRF_reconstruct_int_returns [OF om' a ps(1) lr(1) ur(1) this] sh lr ur ps
  obtain row where "FRF_reconstruct self' (PyInt (int k)) = Inr row" "length row = length om"
    by auto
  with est a show ?thesis by (simp add: lsfd_def)
qed

lemma lsfd_bool_fails:
  "isl (lsfd pinv self whose_poles (FRF_int (PyBool b)) f_lower f_upper complex_mode
          upper_r lower_r)
 \<and> \<not> raises_exception (lsfd pinv self whose_poles (FRF_int (PyBool b)) f_lower f_upper
                          complex_mode upper_r lower_r)"
proof (cases "lsfd_estimate pinv self whose_poles f_lower f_upper complex_mode upper_r lower_r")
  case (Inl e)
  with lsfd_estimate_no_exception [of pinv self whose_poles f_lower f_upper complex_mode
         upper_r lower_r]
  show ?thesis by (simp add: lsfd_def raises_exception_def)
next
  case (Inr self')
  from FRF_reconstruct_bool_fails [of self' b] obtain e where
    "FRF_reconstruct self' (PyBool b) = Inl e" "\<not> raises_exception (Inl e :: error + cfloat list)"
    by (cases "FRF_reconstruct self' (PyBool b)") (auto simp: raises_exception_def)
  with Inr show ?thesis by (simp add: lsfd_def raises_exception_def)
qed

lemma lsfd_bool_error:
  assumes ret: "lsfd pinv self whose_poles FRF_None f_lower f_upper complex_mode upper_r lower_r
                  = Inr (res, self')"
    and om: "omega self = Some om"
  shows "lsfd pinv self whose_poles (FRF_int (PyBool b)) f_lower f_upper complex_mode
           upper_r lower_r
           = Inl (if 1 \<le> shape1 (modal_of res) \<and> shape0 (modal_of res) = 0
                  then IndexError else ValueError)"
proof -
  from ret obtain a where
    est: "lsfd_estimate pinv self whose_poles f_lower f_upper complex_mode upper_r lower_r
            = Inr self'"
    and a: "A self' = Some a" and res: "res = Modal a"
    by (auto simp: lsfd_None_Inr)
  from lsfd_estimate_Inr [OF est] a obtain inds lrs urs ps where
    inds: "pole_ind (case whose_poles of None \<Rightarrow> self | Some other \<Rightarrow> other) = Some inds"
    and sh: "shape1 a = length inds"
    and lr: "LR self' = Some lrs" and ur: "UR self' = Some urs"
    and ps: "poles self' = Some ps" "length ps = length inds"
    and same: "omega self' = omega self"
    by auto
  have om': "omega self' = Some om" using om same by simp
  have "shape1 a = length ps" using sh ps by simp
  from FRF_reconstruct_bool_error [OF om' a ps(1) lr ur this, of b] est res
  show ?thesis by (simp add: lsfd_def modal_of_def)
qed

text \<open>
  Claim C10, as amended. Calling \<^verbatim>\<open>lsfd\<close> with \<^verbatim>\<open>FRF_ind\<close> a Python boolean never raises
  the invalid-selector \<^verbatim>\<open>Exception\<close> of line 568 (a \<^verbatim>\<open>bool\<close> passes
  \<^verbatim>\<open>isinstance(FRF_ind, int)\<close>), but it never returns either: in \<^verbatim>\<open>FRF_reconstruct\<close>
  NumPy reads a boolean index as a mask and not as the index 0 or 1. Whenever the call
  with \<^verbatim>\<open>FRF_ind=None\<close> returns and \<^verbatim>\<open>self.omega\<close> is set, the call with a boolean raises
  \<^verbatim>\<open>ValueError\<close>, or \<^verbatim>\<open>IndexError\<close> when there is at least one pole and no output,
  for \<^verbatim>\<open>True\<close> and for \<^verbatim>\<open>False\<close> alike.
\<close>

theorem lsfd_bool_selector:
  "isl (lsfd pinv self whose_poles (FRF_int (PyBool b)) f_lower f_upper complex_mode
          upper_r lower_r)
 \<and> \<not> raises_exception (lsfd pinv self whose_poles (FRF_int (PyBool b)) f_lower f_upper
                          complex_mode upper_r lower_r)
 \<and> (\<forall>res self' om.
        lsfd pinv self whose_poles FRF_None f_lower f_upper complex_mode upper_r lower_r
          = Inr (res, self')
        \<longrightarrow> omega self = Some om
        \<longrightarrow> lsfd pinv self whose_poles (FRF_int (PyBool b)) f_lower f_upper complex_mode
              upper_r lower_r
              = Inl (if 1 \<le> shape1 (modal_of res) \<and> shape0 (modal_of res) = 0
                     then IndexError else ValueError))"
  using lsfd_bool_fails [of pinv self whose_poles b f_lower f_upper complex_mode upper_r lower_r]
    lsfd_bool_error [of pinv self whose_poles f_lower f_upper complex_mode upper_r lower_r]
  by blast

lemma no_outputs_None:
  "\<exists>a self'. lsfd zero_pinv no_outputs None FRF_None None None True True True
                = Inr (Modal a, self')
            \<and> shape0 a = 0 \<and> shape1 a = 1"
proof -
  have "\<exists>self'. lsfd_estimate zero_pinv no_outputs None None None True True True = Inr self'"
    by (simp add: lsfd_estimate_def no_outputs_def new_object_def zero_pinv_def
          selected_pole_def getitem_def py_index_def argmin_def cols_slice_def lsfd_TA_def
          fmatmul_def transpose2_def lsfd_rows_def Let_def)
  then obtain self' where
    est: "lsfd_estimate zero_pinv no_outputs None None None True True True = Inr self'" ..
  from lsfd_estimate_Inr [OF est] obtain a where
    "A self' = Some a" "shape0 a = 0" "shape1 a = 1"
    by (auto simp: no_outputs_def new_object_def)
  with est show ?thesis by (auto simp: lsfd_None_Inr)
qed

theorem lsfd_bool_selector_witness:
  "lsfd zero_pinv two_outputs None (FRF_int (PyBool True)) None None True True True
     = Inl ValueError
 \<and> lsfd zero_pinv two_outputs None (FRF_int (PyBool False)) None None True True True
     = Inl ValueError
 \<and> \<not> isl (lsfd zero_pinv two_outputs None FRF_None None None True True True)
 \<and> omega two_outputs = Some [2 * pi]
 \<and> lsfd zero_pinv no_outputs None (FRF_int (PyBool True)) None None True True True
     = Inl IndexError
 \<and> lsfd zero_pinv no_outputs None (FRF_int (PyBool False)) None None True True True
     = Inl IndexError
 \<and> \<not> isl (lsfd zero_pinv no_outputs None FRF_None None None True True True)
 \<and> omega no_outputs = Some [2 * pi]"
proof -
  from two_outputs_None obtain a self' where
    ret: "lsfd zero_pinv two_outputs None FRF_None None None True True True = Inr (Modal a, self')"
    and sh: "shape0 a = 2" "shape1 a = 1"
    by blast
  have om: "omega two_outputs = Some [2 * pi]"
    by (simp add: two_outputs_def new_object_def)
  from no_outputs_None obtain a0 self0 where
    ret0: "lsfd zero_pinv no_outputs None FRF_None None None True True True
             = Inr (Modal a0, self0)"
    and sh0: "shape0 a0 = 0" "shape1 a0 = 1"
    by blast
  have om0: "omega no_outputs = Some [2 * pi]"
    by (simp add: no_outputs_def new_object_def)
  have two: "lsfd zero_pinv two_outputs None (FRF_int (PyBool True)) None None True True True
               = Inl ValueError
           \<and> lsfd zero_pinv two_outputs None (FRF_int (PyBool False)) None None True True True
               = Inl ValueError"
    using lsfd_bool_selector [of zero_pinv two_outputs None True None None True True True]
      lsfd_bool_selector [of zero_pinv two_outputs None False None None True True True]
      ret om sh
    by (simp add: modal_of_def)
  have none: "lsfd zero_pinv no_outputs None (FRF_int (PyBool True)) None None True True True
               = Inl IndexError
           \<and> lsfd zero_pinv no_outputs None (FRF_int (PyBool False)) None None True True True
               = Inl IndexError"
    using lsfd_bool_selector [of zero_pinv no_outputs None True None None True True True]
      lsfd_bool_selector [of zero_pinv no_outputs None False None None True True True]
      ret0 om0 sh0
    by (simp add: modal_of_def)
  from two none ret ret0 om om0 show ?thesis by simp
qed

text \<open>
  Claim C10 as stated has \<^verbatim>\<open>True\<close> treated as the output index 1 and \<^verbatim>\<open>False\<close> as the
  output index 0, with a reconstructed row returned. On an object with two outputs
  the calls with the indices 0 and 1 return a row, and the calls with \<^verbatim>\<open>False\<close> and
  \<^verbatim>\<open>True\<close> raise \<^verbatim>\<open>ValueError\<close>.
\<close>

theorem lsfd_bool_selector_counterexample:
  "\<not> isl (lsfd zero_pinv two_outputs None (FRF_int (PyInt 1)) None None True True True)
 \<and> \<not> isl (lsfd zero_pinv two_outputs None (FRF_int (PyInt 0)) None None True True True)
 \<and> lsfd zero_pinv two_outputs None (FRF_int (PyBool True)) None None True True True
     = Inl ValueError
 \<and> lsfd zero_pinv two_outputs None (FRF_int (PyBool False)) None None True True True
     = Inl ValueError"
proof -
  from two_outputs_estimate obtain self' where
    est: "lsfd_estimate zero_pinv two_outputs None None None True True True = Inr self'" ..
  have om: "omega two_outputs = Some [2 * pi]"
    by (simp add: two_outputs_def new_object_def)
  obtain m where m: "frf two_outputs = Some (Frf m)" "shape0 m = 2"
    by (simp add: two_outputs_def new_object_def)
  from two_outputs_None obtain a self'' where
    ret: "lsfd zero_pinv two_outputs None FRF_None None None True True True
            = Inr (Modal a, self'')"
    and sh: "shape0 a = 2" "shape1 a = 1"
    by blast
  have "\<not> isl (lsfd zero_pinv two_outputs None (FRF_int (PyInt (int 1))) None None
                 True True True)"
    using lsfd_int_returns [OF est om m(1), of 1] m(2) by auto
  moreover
  have "\<not> isl (lsfd zero_pinv two_outputs None (FRF_int (PyInt (int 0))) None None
                 True True True)"
    using lsfd_int_returns [OF est om m(1), of 0] m(2) by auto
  moreover
  have "lsfd zero_pinv two_outputs None (FRF_int (PyBool True)) None None True True True
          = Inl ValueError"
    using lsfd_bool_error [OF ret om, of True] sh by (simp add: modal_of_def)
  moreover
  have "lsfd zero_pinv two_outputs None (FRF_int (PyBool False)) None None True True True
          = Inl ValueError"
    using lsfd_bool_error [OF ret om, of False] sh by (simp add: modal_of_def)
  ultimately show ?thesis by simp
qed

end
